theory Spec2Isabelle
  imports Main "HOL-Library.Word"
begin

section \<open>Values shared by the whole program\<close>

text \<open>
  The program is \<^verbatim>\<open>radar-database.py\<close>: it scrapes a page for download links and
  fetches every link under a semaphore, with a progress bar. Python exceptions are
  values here; each constructor carries the text that \<^verbatim>\<open>str(e)\<close> prints. All of
  them are subclasses of \<^verbatim>\<open>Exception\<close>, so \<^verbatim>\<open>except Exception\<close> catches each one.
\<close>

type_synonym bytes = "8 word list"

datatype exn =
    ClientConnectionError string
  | ClientResponseError string
  | OSError string
  | ValueError string
  | KeyError string

fun str :: "exn \<Rightarrow> string" where
  "str (ClientConnectionError m) = m"
| "str (ClientResponseError m) = m"
| "str (OSError m) = m"
| "str (ValueError m) = m"
| "str (KeyError m) = m"

section \<open>The progress tracker (class AsyncDownloadProgress)\<close>

text \<open>
  The \<^verbatim>\<open>tqdm\<close> bar as far as the class drives it: its total, its counter \<^verbatim>\<open>n\<close>, the
  postfix string and whether it was closed. \<^verbatim>\<open>tqdm.update\<close> and \<^verbatim>\<open>tqdm.close\<close>
  return at once on a closed (disabled) bar; neither of them raises when the counter
  passes the total.
\<close>

record tqdm =
  bar_total :: int
  bar_desc :: string
  bar_unit :: string
  bar_n :: int
  bar_postfix :: "string option"
  bar_closed :: bool

definition tqdm_init :: "int \<Rightarrow> string \<Rightarrow> string \<Rightarrow> tqdm" where
  "tqdm_init total_files desc unit =
     \<lparr>bar_total = total_files, bar_desc = desc, bar_unit = unit,
      bar_n = 0, bar_postfix = None, bar_closed = False\<rparr>"

definition tqdm_update :: "int \<Rightarrow> tqdm \<Rightarrow> tqdm" where
  "tqdm_update k bar = (if bar_closed bar then bar else bar\<lparr>bar_n := bar_n bar + k\<rparr>)"

definition set_postfix_str :: "string \<Rightarrow> tqdm \<Rightarrow> tqdm" where
  "set_postfix_str s bar = bar\<lparr>bar_postfix := Some s\<rparr>"

definition tqdm_close :: "tqdm \<Rightarrow> tqdm" where
  "tqdm_close bar = (if bar_closed bar then bar else bar\<lparr>bar_closed := True\<rparr>)"

text \<open>
  The object itself: the bar, the count of completed downloads and the
  \<^verbatim>\<open>asyncio.Lock\<close> (\<open>True\<close> while held).
\<close>

record AsyncDownloadProgress =
  progress_bar :: tqdm
  completed :: int
  lock :: bool

definition AsyncDownloadProgress_init :: "int \<Rightarrow> AsyncDownloadProgress" where
  "AsyncDownloadProgress_init total_files =
     \<lparr>progress_bar = tqdm_init total_files ''Downloading Files'' ''file'',
      completed = 0,
      lock = False\<rparr>"

text \<open>
  \<^verbatim>\<open>update(filename=None)\<close>: the body runs inside \<^verbatim>\<open>async with self.lock\<close> and has
  no suspension point, so it is one uninterrupted step of the event loop: the lock is
  taken, the three statements run, the lock is released. \<^verbatim>\<open>if filename:\<close> is false for
  \<^verbatim>\<open>None\<close> and for the empty string.
\<close>

definition update :: "string option \<Rightarrow> AsyncDownloadProgress \<Rightarrow> AsyncDownloadProgress" where
  "update filename self =
     (let s0 = self\<lparr>lock := True\<rparr>;
          s1 = s0\<lparr>completed := completed s0 + 1\<rparr>;
          s2 = s1\<lparr>progress_bar := tqdm_update 1 (progress_bar s1)\<rparr>;
          s3 = (case filename of
                  None \<Rightarrow> s2
                | Some f \<Rightarrow>
                    if f = [] then s2
                    else s2\<lparr>progress_bar := set_postfix_str (''Last: '' @ f) (progress_bar s2)\<rparr>)
      in s3\<lparr>lock := False\<rparr>)"

definition close :: "AsyncDownloadProgress \<Rightarrow> AsyncDownloadProgress" where
  "close self = self\<lparr>progress_bar := tqdm_close (progress_bar self)\<rparr>"

text \<open>The calls a client can make on a tracker, for statements about call sequences.\<close>

datatype tracker_call = Update "string option" | Close

fun call :: "AsyncDownloadProgress \<Rightarrow> tracker_call \<Rightarrow> AsyncDownloadProgress" where
  "call self (Update filename) = update filename self"
| "call self Close = close self"

section \<open>String and path helpers of the standard library\<close>

text \<open>
  \<^verbatim>\<open>s.split(c)\<close> for a one-character separator: the pieces between the separators, of
  which there is always at least one.
\<close>

fun split :: "char \<Rightarrow> string \<Rightarrow> string list" where
  "split c [] = [[]]"
| "split c (x # xs) =
     (if x = c then [] # split c xs
      else (case split c xs of
              [] \<Rightarrow> [[x]]
            | piece # pieces \<Rightarrow> (x # piece) # pieces))"

text \<open>\<^verbatim>\<open>os.path.join(a, b)\<close> of \<^verbatim>\<open>posixpath\<close>, for two arguments.\<close>

definition os_path_join :: "string \<Rightarrow> string \<Rightarrow> string" where
  "os_path_join a b =
     (if b \<noteq> [] \<and> hd b = CHR ''/'' then b
      else if a = [] \<or> last a = CHR ''/'' then a @ b
      else a @ ''/'' @ b)"

section \<open>The environment: network and file system\<close>

text \<open>
  What the program can change outside itself: the files (path to content), the
  directories, and the lines printed on standard output.
\<close>

record world =
  files :: "string \<rightharpoonup> bytes"
  dirs :: "string set"
  stdout :: "string list"

text \<open>
  An HTTP response: the status code, and what \<^verbatim>\<open>await response.read()\<close> and
  \<^verbatim>\<open>await response.text()\<close> give (the body, or an exception while reading it).
  \<^verbatim>\<open>raise_for_status\<close> of aiohttp raises \<^verbatim>\<open>ClientResponseError\<close> when the status is
  400 or more. The text of that exception is composed by aiohttp from the status, the
  reason phrase and the URL of the request; it is taken from the response as
  \<open>error_str\<close>, whatever the library makes it.
\<close>

record response =
  status :: int
  error_str :: string
  body :: "exn + bytes"
  body_text :: "exn + string"

definition raise_for_status :: "response \<Rightarrow> exn option" where
  "raise_for_status r =
     (if 400 \<le> status r then Some (ClientResponseError (error_str r)) else None)"

text \<open>
  The answers of the outside world to the input/output requests of one download task:
  \<^item> \<open>session_get url\<close>: \<^verbatim>\<open>session.get(url)\<close> gives a response or raises;
  \<^item> \<open>aiofiles_open path\<close>: \<^verbatim>\<open>aiofiles.open(path, 'wb')\<close> raises or creates/truncates the file;
  \<^item> \<open>file_write path data\<close>: \<^verbatim>\<open>file.write(data)\<close> (with the closing of the file)
    raises after some bytes were written, or writes all of them.
  The environment gives one such record per task (by position in the link list), so
  that two tasks with the same URL may fare differently, and the result of
  \<^verbatim>\<open>os.makedirs(path, exist_ok=True)\<close> on the current set of directories.
\<close>

record io =
  session_get :: "string \<Rightarrow> exn + response"
  aiofiles_open :: "string \<Rightarrow> exn option"
  file_write :: "string \<Rightarrow> bytes \<Rightarrow> (exn \<times> nat) option"

record env =
  os_makedirs :: "string \<Rightarrow> string set \<Rightarrow> exn + string set"
  task_io :: "nat \<Rightarrow> io"

section \<open>download_file\<close>

text \<open>
  The body of the \<^verbatim>\<open>try\<close> block, statement by statement. \<open>Inl\<close> is an exception
  together with the world at the moment it was raised; \<open>Inr\<close> is the returned filename
  with the tracker and the world after the body.
\<close>

definition download_attempt ::
  "io \<Rightarrow> string \<Rightarrow> string \<Rightarrow> AsyncDownloadProgress \<Rightarrow> world
     \<Rightarrow> (exn \<times> world) + (string \<times> AsyncDownloadProgress \<times> world)" where
  "download_attempt session url output_dir progress_tracker w =
     (case session_get session url of
        Inl e \<Rightarrow> Inl (e, w)
      | Inr resp \<Rightarrow>
          (case raise_for_status resp of
             Some e \<Rightarrow> Inl (e, w)
           | None \<Rightarrow>
               let filename = last (split CHR ''/'' url);
                   filepath = os_path_join output_dir filename
               in (case aiofiles_open session filepath of
                     Some e \<Rightarrow> Inl (e, w)
                   | None \<Rightarrow>
                       let w1 = w\<lparr>files := (files w)(filepath \<mapsto> [])\<rparr>
                       in (case body resp of
                             Inl e \<Rightarrow> Inl (e, w1)
                           | Inr data \<Rightarrow>
                               (case file_write session filepath data of
                                  Some (e, k) \<Rightarrow>
                                    Inl (e, w1\<lparr>files := (files w1)(filepath \<mapsto> take k data)\<rparr>)
                                | None \<Rightarrow>
                                    let w2 = w1\<lparr>files := (files w1)(filepath \<mapsto> data)\<rparr>
                                    in Inr (filename,
                                            update (Some filename) progress_tracker,
                                            w2))))))"

text \<open>
  \<^verbatim>\<open>download_file\<close>: the \<^verbatim>\<open>try\<close> block, and the handler that prints the error and
  returns \<^verbatim>\<open>None\<close>. The handler does not touch the tracker.
\<close>

definition download_file ::
  "io \<Rightarrow> string \<Rightarrow> string \<Rightarrow> AsyncDownloadProgress \<Rightarrow> world
     \<Rightarrow> string option \<times> AsyncDownloadProgress \<times> world" where
  "download_file session url output_dir progress_tracker w =
     (case download_attempt session url output_dir progress_tracker w of
        Inr (filename, tracker', w') \<Rightarrow> (Some filename, tracker', w')
      | Inl (e, w') \<Rightarrow>
          (None, progress_tracker,
           w'\<lparr>stdout := stdout w' @ [''Error downloading '' @ url @ '': '' @ str e]\<rparr>))"

section \<open>download_files\<close>

text \<open>
  Each coroutine \<^verbatim>\<open>bounded_download(link)\<close> handed to \<^verbatim>\<open>asyncio.gather\<close> is in one
  of three phases: waiting to enter \<^verbatim>\<open>async with sem\<close>, inside it (running
  \<^verbatim>\<open>download_file\<close>, holding one unit of the semaphore), or settled with its return
  value.
\<close>

datatype phase = Waiting | Running | Settled "string option"

text \<open>
  The local variables of \<^verbatim>\<open>download_files\<close> while it runs: the output directory, the
  tracker, the counter of the semaphore, the gathered tasks (each with its link, in the
  order of the link list), and the outside world.
\<close>

record frame =
  out_dir :: string
  tracker :: AsyncDownloadProgress
  sem :: nat
  tasks :: "(string \<times> phase) list"
  outside :: world

text \<open>\<^verbatim>\<open>asyncio.Semaphore(value)\<close> raises \<^verbatim>\<open>ValueError\<close> for a negative value only.\<close>

definition Semaphore :: "int \<Rightarrow> exn + nat" where
  "Semaphore v =
     (if v < 0 then Inl (ValueError ''Semaphore initial value must be >= 0'')
      else Inr (nat v))"

text \<open>
  Lines 94 to 103: the directory name, \<^verbatim>\<open>os.makedirs\<close>, the tracker, the semaphore.
  An exception leaves with the world as it is then; no task exists yet.
\<close>

definition output_dir_name :: "string \<Rightarrow> string \<Rightarrow> string \<Rightarrow> string \<Rightarrow> string" where
  "output_dir_name radar year month day = radar @ ''_'' @ year @ ''_'' @ month @ ''_'' @ day"

definition prepare ::
  "env \<Rightarrow> string list \<Rightarrow> string \<Rightarrow> string \<Rightarrow> string \<Rightarrow> string \<Rightarrow> int \<Rightarrow> world
     \<Rightarrow> (exn \<times> world) + frame" where
  "prepare env links radar year month day max_concurrent w =
     (let output_dir = output_dir_name radar year month day
      in case os_makedirs env output_dir (dirs w) of
           Inl e \<Rightarrow> Inl (e, w)
         | Inr ds \<Rightarrow>
             let w1 = w\<lparr>dirs := ds\<rparr>;
                 progress_tracker = AsyncDownloadProgress_init (int (length links))
             in (case Semaphore max_concurrent of
                   Inl e \<Rightarrow> Inl (e, w1)
                 | Inr s \<Rightarrow>
                     Inr \<lparr>out_dir = output_dir, tracker = progress_tracker, sem = s,
                          tasks = [], outside = w1\<rparr>))"

text \<open>Line 113: one coroutine per link, in the order of the links.\<close>

definition launch :: "string list \<Rightarrow> frame \<Rightarrow> frame" where
  "launch links st = st\<lparr>tasks := map (\<lambda>link. (link, Waiting)) links\<rparr>"

text \<open>
  One move of task \<open>i\<close>. A waiting task enters the semaphore when its counter is
  positive and takes one unit. A running task finishes \<^verbatim>\<open>download_file\<close>, leaves the
  \<^verbatim>\<open>async with sem\<close> block, which gives the unit back, and settles with the value
  returned. A task that cannot move leaves the frame as it is.

  The effects of one \<^verbatim>\<open>download_file\<close> on the tracker and the world are applied in
  the move that finishes it. What tasks share is the tracker, which \<^verbatim>\<open>update\<close> changes
  inside its lock without a suspension point, the file under the task's own path, and
  standard output. A running task can always move: each of its requests is answered
  in the end, with a result or with an exception.
\<close>

definition step :: "env \<Rightarrow> nat \<Rightarrow> frame \<Rightarrow> frame" where
  "step env i st =
     (if i < length (tasks st) then
        (case tasks st ! i of
           (url, Waiting) \<Rightarrow>
             if 0 < sem st
             then st\<lparr>sem := sem st - 1, tasks := (tasks st)[i := (url, Running)]\<rparr>
             else st
         | (url, Running) \<Rightarrow>
             (case download_file (task_io env i) url (out_dir st) (tracker st) (outside st) of
                (r, t, w) \<Rightarrow>
                  st\<lparr>tracker := t, outside := w, sem := sem st + 1,
                     tasks := (tasks st)[i := (url, Settled r)]\<rparr>)
         | (url, Settled r) \<Rightarrow> st)
      else st)"

definition can_move :: "frame \<Rightarrow> nat \<Rightarrow> bool" where
  "can_move st i =
     (case snd (tasks st ! i) of
        Waiting \<Rightarrow> 0 < sem st
      | Running \<Rightarrow> True
      | Settled r \<Rightarrow> False)"

definition ready :: "frame \<Rightarrow> nat list" where
  "ready st = filter (can_move st) [0..<length (tasks st)]"

fun is_settled :: "phase \<Rightarrow> bool" where
  "is_settled (Settled r) = True"
| "is_settled Waiting = False"
| "is_settled Running = False"

definition all_settled :: "frame \<Rightarrow> bool" where
  "all_settled st = list_all (\<lambda>t. is_settled (snd t)) (tasks st)"

text \<open>The number of tasks inside \<^verbatim>\<open>async with sem\<close>, that is, fetching or writing.\<close>

definition active :: "frame \<Rightarrow> nat" where
  "active st = length (filter (\<lambda>t. snd t = Running) (tasks st))"

text \<open>
  The event loop. Which task moves next is not the program's choice: it depends on
  when the network and the disk answer. The schedule \<open>sched\<close> stands for that: at each
  turn its head picks one of the tasks that can move. When no task can move and some
  task is not settled, the loop idles. \<open>run\<close> lists the frames the loop goes through;
  it stops when every task has settled (and \<^verbatim>\<open>gather\<close> returns) or when the schedule
  ends.
\<close>

definition turn :: "env \<Rightarrow> nat \<Rightarrow> frame \<Rightarrow> frame" where
  "turn env c st =
     (case ready st of
        [] \<Rightarrow> st
      | r # rs \<Rightarrow> step env ((r # rs) ! (c mod length (r # rs))) st)"

fun run :: "env \<Rightarrow> nat list \<Rightarrow> frame \<Rightarrow> frame list" where
  "run env [] st = [st]"
| "run env (c # cs) st =
     (if all_settled st then [st] else st # run env cs (turn env c st))"

text \<open>
  \<^verbatim>\<open>await asyncio.gather(...)\<close>: the frame in which all tasks have settled, or \<open>None\<close>
  when the schedule ends before that.
\<close>

definition gather :: "env \<Rightarrow> nat list \<Rightarrow> frame \<Rightarrow> frame option" where
  "gather env sched st =
     (let final = last (run env sched st)
      in if all_settled final then Some final else None)"

fun result_of :: "string \<times> phase \<Rightarrow> string option" where
  "result_of (url, Settled r) = r"
| "result_of (url, Waiting) = None"
| "result_of (url, Running) = None"

definition results :: "frame \<Rightarrow> string option list" where
  "results st = map result_of (tasks st)"

text \<open>
  \<^verbatim>\<open>download_files\<close>: an exception of the preparation leaves the function; otherwise
  the tasks are gathered, the tracker is closed and the results that are not \<^verbatim>\<open>None\<close>
  are returned. \<open>None\<close> means that the call has not returned by the end of the schedule.
\<close>

datatype outcome = Raised exn world | Returned "string list" frame

definition download_files ::
  "env \<Rightarrow> nat list \<Rightarrow> string list \<Rightarrow> string \<Rightarrow> string \<Rightarrow> string \<Rightarrow> string \<Rightarrow> int \<Rightarrow> world
     \<Rightarrow> outcome option" where
  "download_files env sched links radar year month day max_concurrent w =
     (case prepare env links radar year month day max_concurrent w of
        Inl (e, w') \<Rightarrow> Some (Raised e w')
      | Inr st0 \<Rightarrow>
          (case gather env sched (launch links st0) of
             None \<Rightarrow> None
           | Some st \<Rightarrow>
               Some (Returned (map the (filter (\<lambda>r. r \<noteq> None) (results st)))
                              (st\<lparr>tracker := close (tracker st)\<rparr>))))"

section \<open>fetch_download_links\<close>

text \<open>
  The parse tree of BeautifulSoup as far as the function reads it: a tag has a name,
  its list of classes, its other attributes and the tags it contains. The parser and
  \<^verbatim>\<open>urllib.parse.urljoin\<close> are parameters.
\<close>

datatype tag = Tag (tag_name: string) (classes: "string list")
                   (attrs: "string \<rightharpoonup> string") (contents: "tag list")

fun descendants :: "tag \<Rightarrow> tag list" where
  "descendants (Tag nm cls as cs) = concat (map (\<lambda>c. c # descendants c) cs)"

text \<open>\<^verbatim>\<open>soup.find_all(name, class_=cls)\<close> and \<^verbatim>\<open>tag.find(name)\<close>, in document order.\<close>

definition find_all :: "string \<Rightarrow> string \<Rightarrow> tag \<Rightarrow> tag list" where
  "find_all nm cls t =
     filter (\<lambda>d. tag_name d = nm \<and> cls \<in> set (classes d)) (descendants t)"

definition find_tag :: "string \<Rightarrow> tag \<Rightarrow> tag option" where
  "find_tag nm t =
     (case filter (\<lambda>d. tag_name d = nm) (descendants t) of
        [] \<Rightarrow> None
      | d # ds \<Rightarrow> Some d)"

record web =
  page_get :: "string \<Rightarrow> exn + response"
  html_parser :: "string \<Rightarrow> tag"
  urljoin :: "string \<Rightarrow> string \<Rightarrow> string"

text \<open>
  The list comprehension of lines 60 and 61: a container without an anchor is left
  out by the filter; \<^verbatim>\<open>link.find('a')['href']\<close> raises \<^verbatim>\<open>KeyError\<close> when the anchor
  found has no such attribute, which ends the comprehension.
\<close>

fun extract_links :: "(string \<Rightarrow> string \<Rightarrow> string) \<Rightarrow> string \<Rightarrow> tag list \<Rightarrow> exn + string list" where
  "extract_links join url [] = Inr []"
| "extract_links join url (link # rest) =
     (case find_tag ''a'' link of
        None \<Rightarrow> extract_links join url rest
      | Some a \<Rightarrow>
          (case attrs a ''href'' of
             None \<Rightarrow> Inl (KeyError ''href'')
           | Some href \<Rightarrow>
               (case extract_links join url rest of
                  Inl e \<Rightarrow> Inl e
                | Inr ls \<Rightarrow> Inr (join url href # ls))))"

definition fetch_download_links :: "web \<Rightarrow> string \<Rightarrow> exn + string list" where
  "fetch_download_links web url =
     (case page_get web url of
        Inl e \<Rightarrow> Inl e
      | Inr resp \<Rightarrow>
          (case raise_for_status resp of
             Some e \<Rightarrow> Inl e
           | None \<Rightarrow>
               (case body_text resp of
                  Inl e \<Rightarrow> Inl e
                | Inr html \<Rightarrow>
                    let soup = html_parser web html;
                        download_links = find_all ''div'' ''bdpLink'' soup
                    in extract_links (urljoin web) url download_links)))"

section \<open>Notions used to state the properties\<close>

text \<open>
  When a download fails, read off the answers of the environment: the fetch fails when
  the request raises, the status is 400 or more, or reading the body raises; the write
  fails when opening the file raises, or when writing the body that was read raises.
\<close>

definition fetch_fails :: "io \<Rightarrow> string \<Rightarrow> bool" where
  "fetch_fails session url =
     (case session_get session url of
        Inl e \<Rightarrow> True
      | Inr resp \<Rightarrow> 400 \<le> status resp \<or> isl (body resp))"

definition write_fails :: "io \<Rightarrow> string \<Rightarrow> string \<Rightarrow> bool" where
  "write_fails session url output_dir =
     (let filepath = os_path_join output_dir (last (split CHR ''/'' url))
      in aiofiles_open session filepath \<noteq> None \<or>
         (case session_get session url of
            Inl e \<Rightarrow> False
          | Inr resp \<Rightarrow>
              (case body resp of
                 Inl e \<Rightarrow> False
               | Inr data \<Rightarrow> file_write session filepath data \<noteq> None)))"

definition download_fails :: "io \<Rightarrow> string \<Rightarrow> string \<Rightarrow> bool" where
  "download_fails session url output_dir \<longleftrightarrow>
     fetch_fails session url \<or> write_fails session url output_dir"

text \<open>
  The value a task settles with, the weight of the work a task has left, and the
  invariant of the frames of a run.
\<close>

definition settles_with :: "env \<Rightarrow> string \<Rightarrow> nat \<Rightarrow> string \<Rightarrow> string option" where
  "settles_with env od i url =
     (if download_fails (task_io env i) url od then None
      else Some (last (split CHR ''/'' url)))"

fun weight :: "phase \<Rightarrow> nat" where
  "weight Waiting = 2"
| "weight Running = 1"
| "weight (Settled r) = 0"

definition remaining :: "frame \<Rightarrow> nat" where
  "remaining st = sum_list (map (\<lambda>t. weight (snd t)) (tasks st))"

fun is_success :: "string \<times> phase \<Rightarrow> bool" where
  "is_success (url, Settled (Some f)) = True"
| "is_success (url, Settled None) = False"
| "is_success (url, Waiting) = False"
| "is_success (url, Running) = False"

definition coherent :: "env \<Rightarrow> string list \<Rightarrow> string \<Rightarrow> nat \<Rightarrow> frame \<Rightarrow> bool" where
  "coherent env links od cap st \<longleftrightarrow>
     map fst (tasks st) = links \<and> out_dir st = od \<and> sem st + active st = cap \<and>
     (\<forall>i < length (tasks st). \<forall>r. snd (tasks st ! i) = Settled r \<longrightarrow>
        r = settles_with env od i (fst (tasks st ! i))) \<and>
     completed (tracker st) = int (length (filter is_success (tasks st))) \<and>
     lock (tracker st) = False \<and>
     bar_n (progress_bar (tracker st)) = completed (tracker st) \<and>
     \<not> bar_closed (progress_bar (tracker st)) \<and>
     bar_total (progress_bar (tracker st)) = int (length links)"



text \<open>The list a call returned and the tracker it closed, when it returned.\<close>

definition returned_files :: "outcome option \<Rightarrow> string list option" where
  "returned_files r = (case r of Some (Returned fs st) \<Rightarrow> Some fs | _ \<Rightarrow> None)"

definition final_tracker :: "outcome option \<Rightarrow> AsyncDownloadProgress option" where
  "final_tracker r = (case r of Some (Returned fs st) \<Rightarrow> Some (tracker st) | _ \<Rightarrow> None)"

text \<open>Which calls on a tracker are updates.\<close>

fun is_update :: "tracker_call \<Rightarrow> bool" where
  "is_update (Update filename) = True"
| "is_update Close = False"

text \<open>
  What \<^verbatim>\<open>link.find('a')['href']\<close> meets in a container: no anchor (\<open>None\<close>), an anchor
  without the attribute (\<open>Some None\<close>), or the attribute's value.
\<close>

definition anchor_href :: "tag \<Rightarrow> string option option" where
  "anchor_href d =
     (case find_tag ''a'' d of
        None \<Rightarrow> None
      | Some a \<Rightarrow> Some (attrs a ''href''))"

fun href_list :: "string option option \<Rightarrow> string list" where
  "href_list (Some (Some h)) = [h]"
| "href_list (Some None) = []"
| "href_list None = []"

section \<open>Concrete inputs\<close>

text \<open>A small concrete environment: three links, of which the second cannot be fetched.\<close>

definition ok_response :: response where
  "ok_response = \<lparr>status = 200, error_str = [], body = Inr [1, 2], body_text = Inr []\<rparr>"

definition good_io :: io where
  "good_io = \<lparr>session_get = (\<lambda>u. Inr ok_response), aiofiles_open = (\<lambda>p. None),
              file_write = (\<lambda>p d. None)\<rparr>"

definition bad_io :: io where
  "bad_io = \<lparr>session_get = (\<lambda>u. Inl (ClientConnectionError ''refused'')),
             aiofiles_open = (\<lambda>p. None), file_write = (\<lambda>p d. None)\<rparr>"

definition demo_env :: env where
  "demo_env = \<lparr>os_makedirs = (\<lambda>p ds. Inr (insert p ds)),
               task_io = (\<lambda>i. if i = 1 then bad_io else good_io)\<rparr>"

definition demo_world :: world where
  "demo_world = \<lparr>files = Map.empty, dirs = {}, stdout = []\<rparr>"

definition demo_links :: "string list" where
  "demo_links = [''http://h/x/A'', ''http://h/x/B'', ''http://h/x/C'']"

text \<open>
  The frame that batch returns from when each task in turn is admitted and finishes,
  and the frames of its preparation for the caps 2, 20 and 0.
\<close>

definition demo_final :: frame where
  "demo_final =
     \<lparr>out_dir = ''KHTX_2025_03_15'',
      tracker =
        \<lparr>progress_bar =
           \<lparr>bar_total = 3, bar_desc = ''Downloading Files'', bar_unit = ''file'', bar_n = 2,
            bar_postfix = Some ''Last: C'', bar_closed = True\<rparr>,
         completed = 2, lock = False\<rparr>,
      sem = 20,
      tasks = [(''http://h/x/A'', Settled (Some ''A'')), (''http://h/x/B'', Settled None),
               (''http://h/x/C'', Settled (Some ''C''))],
      outside =
        \<lparr>files = [''KHTX_2025_03_15/A'' \<mapsto> [1, 2], ''KHTX_2025_03_15/C'' \<mapsto> [1, 2]],
         dirs = {''KHTX_2025_03_15''},
         stdout = [''Error downloading http://h/x/B: refused'']\<rparr>\<rparr>"

definition demo_prepared :: frame where
  "demo_prepared =
     \<lparr>out_dir = ''KHTX_2025_03_15'', tracker = AsyncDownloadProgress_init 3, sem = 2,
      tasks = [], outside = \<lparr>files = Map.empty, dirs = {''KHTX_2025_03_15''}, stdout = []\<rparr>\<rparr>"

definition demo_prepared20 :: frame where
  "demo_prepared20 =
     \<lparr>out_dir = ''KHTX_2025_03_15'', tracker = AsyncDownloadProgress_init 3, sem = 20,
      tasks = [], outside = \<lparr>files = Map.empty, dirs = {''KHTX_2025_03_15''}, stdout = []\<rparr>\<rparr>"

definition demo_busy :: frame where
  "demo_busy =
     \<lparr>out_dir = ''KHTX_2025_03_15'', tracker = AsyncDownloadProgress_init 3, sem = 0,
      tasks = [(''http://h/x/A'', Running), (''http://h/x/B'', Running),
               (''http://h/x/C'', Waiting)],
      outside = \<lparr>files = Map.empty, dirs = {''KHTX_2025_03_15''}, stdout = []\<rparr>\<rparr>"

text \<open>An environment in which the output directory cannot be made.\<close>

definition demo_env_nodir :: env where
  "demo_env_nodir = \<lparr>os_makedirs = (\<lambda>p ds. Inl (OSError ''Permission denied'')),
                     task_io = (\<lambda>i. good_io)\<rparr>"

definition demo_prepared0 :: frame where
  "demo_prepared0 =
     \<lparr>out_dir = ''KHTX_2025_03_15'', tracker = AsyncDownloadProgress_init 3, sem = 0,
      tasks = [], outside = \<lparr>files = Map.empty, dirs = {''KHTX_2025_03_15''}, stdout = []\<rparr>\<rparr>"

text \<open>
  Two concrete pages. Both have a container with a link and a container without an
  anchor; the second page also has a container whose anchor has no \<^verbatim>\<open>href\<close>.
\<close>

definition demo_page :: tag where
  "demo_page =
     Tag ''[document]'' [] Map.empty
       [Tag ''div'' [''bdpLink''] Map.empty [Tag ''a'' [] [''href'' \<mapsto> ''/f/A''] []],
        Tag ''div'' [''bdpLink''] Map.empty [],
        Tag ''div'' [''other''] Map.empty [Tag ''a'' [] [''href'' \<mapsto> ''/f/X''] []]]"

definition demo_page_no_href :: tag where
  "demo_page_no_href =
     Tag ''[document]'' [] Map.empty
       [Tag ''div'' [''bdpLink''] Map.empty [Tag ''a'' [] [''href'' \<mapsto> ''/f/A''] []],
        Tag ''div'' [''bdpLink''] Map.empty [],
        Tag ''div'' [''bdpLink''] Map.empty [Tag ''a'' [] [''name'' \<mapsto> ''top''] []]]"

definition demo_web :: "tag \<Rightarrow> web" where
  "demo_web page =
     \<lparr>page_get = (\<lambda>u. Inr \<lparr>status = 200, error_str = [], body = Inr [], body_text = Inr ''<html>''\<rparr>),
      html_parser = (\<lambda>html. page),
      urljoin = (\<lambda>base href. ''http://h'' @ href)\<rparr>"

text \<open>The frame the batch returns from when the third task runs first.\<close>

definition demo_final_reordered :: frame where
  "demo_final_reordered =
     \<lparr>out_dir = ''KHTX_2025_03_15'',
      tracker =
        \<lparr>progress_bar =
           \<lparr>bar_total = 3, bar_desc = ''Downloading Files'', bar_unit = ''file'', bar_n = 2,
            bar_postfix = Some ''Last: A'', bar_closed = True\<rparr>,
         completed = 2, lock = False\<rparr>,
      sem = 20,
      tasks = [(''http://h/x/A'', Settled (Some ''A'')), (''http://h/x/B'', Settled None),
               (''http://h/x/C'', Settled (Some ''C''))],
      outside =
        \<lparr>files = [''KHTX_2025_03_15/C'' \<mapsto> [1, 2], ''KHTX_2025_03_15/A'' \<mapsto> [1, 2]],
         dirs = {''KHTX_2025_03_15''},
         stdout = [''Error downloading http://h/x/B: refused'']\<rparr>\<rparr>"

section \<open>Lemmas\<close>






lemma download_file_result:
  "fst (download_file session url od t w) =
     (if download_fails session url od then None else Some (last (split CHR ''/'' url)))"
  by (auto simp: download_file_def download_attempt_def download_fails_def fetch_fails_def
        write_fails_def raise_for_status_def Let_def split: sum.splits option.splits)

lemma download_file_tracker:
  "fst (snd (download_file session url od t w)) =
     (if download_fails session url od then t else update (Some (last (split CHR ''/'' url))) t)"
  by (auto simp: download_file_def download_attempt_def download_fails_def fetch_fails_def
        write_fails_def raise_for_status_def Let_def split: sum.splits option.splits)

lemma settles_with_eq:
  "settles_with env od i url =
     (if download_fails (task_io env i) url od then None else Some (last (split CHR ''/'' url)))"
  by (simp add: settles_with_def)

lemma length_filter_update:
  "i < length xs \<Longrightarrow>
     length (filter P (xs[i := y])) + (if P (xs ! i) then 1 else 0) =
     length (filter P xs) + (if P y then 1 else 0)"
proof (induction xs arbitrary: i)
  case Nil
  then show ?case by simp
next
  case (Cons x xs)
  then show ?case by (cases i) auto
qed

lemma weight_sum_update:
  "i < length xs \<Longrightarrow>
     sum_list (map f (xs[i := y])) + f (xs ! i) = sum_list (map f xs) + (f y :: nat)"
proof (induction xs arbitrary: i)
  case Nil
  then show ?case by simp
next
  case (Cons x xs)
  then show ?case by (cases i) auto
qed

lemma completed_update: "completed (update f t) = completed t + 1"
  by (simp add: update_def Let_def split: option.splits)

lemma lock_update: "lock (update f t) = False"
  by (simp add: update_def Let_def split: option.splits)

lemma bar_update:
  "bar_closed (progress_bar (update f t)) = bar_closed (progress_bar t) \<and>
   bar_total (progress_bar (update f t)) = bar_total (progress_bar t) \<and>
   bar_n (progress_bar (update f t)) =
     (if bar_closed (progress_bar t) then bar_n (progress_bar t) else bar_n (progress_bar t) + 1)"
  by (simp add: update_def tqdm_update_def set_postfix_str_def Let_def split: option.splits)

lemma step_admit:
  assumes "i < length (tasks st)" "tasks st ! i = (url, Waiting)" "0 < sem st"
  shows "step env i st = st\<lparr>sem := sem st - 1, tasks := (tasks st)[i := (url, Running)]\<rparr>"
  using assms by (simp add: step_def)

lemma step_finish:
  assumes "i < length (tasks st)" "tasks st ! i = (url, Running)"
  shows "step env i st =
           st\<lparr>tracker := fst (snd (download_file (task_io env i) url (out_dir st) (tracker st) (outside st))),
              outside := snd (snd (download_file (task_io env i) url (out_dir st) (tracker st) (outside st))),
              sem := sem st + 1,
              tasks := (tasks st)[i := (url, Settled (fst (download_file (task_io env i) url (out_dir st) (tracker st) (outside st))))]\<rparr>"
  using assms by (simp add: step_def split: prod.splits)

lemma step_idle:
  assumes "\<not> (i < length (tasks st) \<and> can_move st i)"
  shows "step env i st = st"
  using assms by (auto simp: step_def can_move_def split: prod.splits phase.splits)

lemma step_cases:
  obtains (idle) "step env i st = st"
  | (admit) url where "i < length (tasks st)" "tasks st ! i = (url, Waiting)" "0 < sem st"
  | (finish) url where "i < length (tasks st)" "tasks st ! i = (url, Running)"
proof (cases "i < length (tasks st) \<and> can_move st i")
  case False
  then show ?thesis using idle step_idle by blast
next
  case True
  obtain url p where t: "tasks st ! i = (url, p)" by (cases "tasks st ! i")
  show ?thesis
  proof (cases p)
    case Waiting
    then show ?thesis using True t admit by (auto simp: can_move_def)
  next
    case Running
    then show ?thesis using True t finish by auto
  next
    case (Settled r)
    then show ?thesis using True t by (simp add: can_move_def)
  qed
qed

lemma map_fst_update:
  "i < length xs \<Longrightarrow> fst (xs ! i) = u \<Longrightarrow> map fst (xs[i := (u, p)]) = map fst xs"
proof (induction xs arbitrary: i)
  case Nil
  then show ?case by simp
next
  case (Cons x xs)
  then show ?case by (cases i) auto
qed

lemma coherent_admit:
  assumes coh: "coherent env links od cap st"
    and i: "i < length (tasks st)" and t: "tasks st ! i = (url, Waiting)" and s: "0 < sem st"
  shows "coherent env links od cap
           (st\<lparr>sem := sem st - 1, tasks := (tasks st)[i := (url, Running)]\<rparr>)"
proof -
  let ?xs = "tasks st" and ?ys = "(tasks st)[i := (url, Running)]"
  have links: "map fst ?ys = links"
    using coh i t by (simp add: coherent_def map_fst_update)
  have act: "length (filter (\<lambda>t. snd t = Running) ?ys) = Suc (length (filter (\<lambda>t. snd t = Running) ?xs))"
    using length_filter_update [OF i, of "\<lambda>t. snd t = Running" "(url, Running)"] t by simp
  have succ: "length (filter is_success ?ys) = length (filter is_success ?xs)"
    using length_filter_update [OF i, of is_success "(url, Running)"] t by simp
  have res: "\<forall>j < length ?ys. \<forall>r. snd (?ys ! j) = Settled r \<longrightarrow>
               r = settles_with env od j (fst (?ys ! j))"
  proof (intro allI impI)
    fix j r
    assume j: "j < length ?ys" and r: "snd (?ys ! j) = Settled r"
    then have "j \<noteq> i" using i by auto
    then show "r = settles_with env od j (fst (?ys ! j))"
      using coh j r by (simp add: coherent_def)
  qed
  show ?thesis
    using coh links act succ res s by (simp add: coherent_def active_def)
qed

lemma coherent_finish:
  assumes coh: "coherent env links od cap st"
    and i: "i < length (tasks st)" and t: "tasks st ! i = (url, Running)"
  shows "coherent env links od cap
           (st\<lparr>tracker := fst (snd (download_file (task_io env i) url (out_dir st) (tracker st) (outside st))),
              outside := snd (snd (download_file (task_io env i) url (out_dir st) (tracker st) (outside st))),
              sem := sem st + 1,
              tasks := (tasks st)[i := (url, Settled (fst (download_file (task_io env i) url (out_dir st) (tracker st) (outside st))))]\<rparr>)"
proof -
  let ?r = "fst (download_file (task_io env i) url (out_dir st) (tracker st) (outside st))"
  let ?t = "fst (snd (download_file (task_io env i) url (out_dir st) (tracker st) (outside st)))"
  let ?xs = "tasks st" and ?ys = "(tasks st)[i := (url, Settled ?r)]"
  have od: "out_dir st = od" using coh by (simp add: coherent_def)
  have r: "?r = settles_with env od i url"
    by (simp add: od download_file_result settles_with_eq)
  have links: "map fst ?ys = links"
    using coh i t by (simp add: coherent_def map_fst_update)
  have act: "Suc (length (filter (\<lambda>t. snd t = Running) ?ys)) = length (filter (\<lambda>t. snd t = Running) ?xs)"
    using length_filter_update [OF i, of "\<lambda>t. snd t = Running" "(url, Settled ?r)"] t by simp
  have succ: "length (filter is_success ?ys) =
                length (filter is_success ?xs) + (if ?r = None then 0 else 1)"
    using length_filter_update [OF i, of is_success "(url, Settled ?r)"] t
    by (cases ?r) auto
  have trk: "?t = (if ?r = None then tracker st else update (Some (last (split CHR ''/'' url))) (tracker st))"
    by (simp add: download_file_tracker download_file_result)
  have cnt: "completed ?t = int (length (filter is_success ?ys))"
    unfolding trk succ using coh by (simp add: completed_update coherent_def)
  have lck: "lock ?t = False"
    unfolding trk using coh by (simp add: lock_update coherent_def)
  have bar: "bar_n (progress_bar ?t) = completed ?t \<and> \<not> bar_closed (progress_bar ?t) \<and>
      bar_total (progress_bar ?t) = int (length links)"
    unfolding trk using coh by (simp add: bar_update completed_update coherent_def)
  have res: "\<forall>j < length ?ys. \<forall>r. snd (?ys ! j) = Settled r \<longrightarrow>
               r = settles_with env od j (fst (?ys ! j))"
  proof (intro allI impI)
    fix j r'
    assume j: "j < length ?ys" and r': "snd (?ys ! j) = Settled r'"
    show "r' = settles_with env od j (fst (?ys ! j))"
    proof (cases "j = i")
      case True
      then show ?thesis using r r' i by simp
    next
      case False
      then show ?thesis using coh j r' by (simp add: coherent_def)
    qed
  qed
  have sm: "sem st + 1 + length (filter (\<lambda>t. snd t = Running) ?ys) = cap"
    using coh act by (simp add: coherent_def active_def)
  show ?thesis
    using od links cnt lck bar res sm by (simp add: coherent_def active_def)
qed

lemma coherent_step:
  assumes "coherent env links od cap st"
  shows "coherent env links od cap (step env i st)"
proof (cases rule: step_cases [of env i st])
  case idle
  then show ?thesis using assms by simp
next
  case (admit url)
  show ?thesis
    unfolding step_admit [OF admit] by (rule coherent_admit [OF assms admit])
next
  case (finish url)
  show ?thesis
    unfolding step_finish [OF finish] by (rule coherent_finish [OF assms finish])
qed

lemma coherent_turn:
  assumes "coherent env links od cap st"
  shows "coherent env links od cap (turn env c st)"
  using assms by (simp add: turn_def coherent_step split: list.splits)

lemma coherent_run:
  assumes "coherent env links od cap st" and "s \<in> set (run env sched st)"
  shows "coherent env links od cap s"
  using assms
proof (induction sched arbitrary: st)
  case Nil
  then show ?case by simp
next
  case (Cons c cs)
  show ?case
  proof (cases "all_settled st \<or> s = st")
    case True
    then show ?thesis using Cons.prems by auto
  next
    case False
    then have "s \<in> set (run env cs (turn env c st))"
      using Cons.prems(2) by simp
    then show ?thesis
      using Cons.IH [OF coherent_turn [OF Cons.prems(1)]] by blast
  qed
qed

lemma remaining_admit:
  assumes i: "i < length (tasks st)" and t: "tasks st ! i = (url, Waiting)"
  shows "Suc (remaining (st\<lparr>sem := k, tasks := (tasks st)[i := (url, Running)]\<rparr>)) = remaining st"
  using weight_sum_update [OF i, of "\<lambda>t. weight (snd t)" "(url, Running)"] t
  by (simp add: remaining_def)

lemma remaining_finish:
  assumes i: "i < length (tasks st)" and t: "tasks st ! i = (url, Running)"
  shows "Suc (remaining (st\<lparr>tracker := a, outside := b, sem := k,
                              tasks := (tasks st)[i := (url, Settled r)]\<rparr>)) = remaining st"
  using weight_sum_update [OF i, of "\<lambda>t. weight (snd t)" "(url, Settled r)"] t
  by (simp add: remaining_def)

lemma remaining_step:
  assumes "i < length (tasks st)" and "can_move st i"
  shows "Suc (remaining (step env i st)) = remaining st"
proof (cases rule: step_cases [of env i st])
  case idle
  obtain url p where t: "tasks st ! i = (url, p)" by (cases "tasks st ! i")
  show ?thesis
  proof (cases p)
    case Waiting
    then have "0 < sem st" using assms t by (simp add: can_move_def)
    then show ?thesis
      using assms t Waiting by (simp add: step_admit remaining_admit)
  next
    case Running
    then show ?thesis using assms t by (simp add: step_finish remaining_finish)
  next
    case (Settled r)
    then show ?thesis using assms t by (simp add: can_move_def)
  qed
next
  case (admit url)
  then show ?thesis by (simp add: step_admit remaining_admit)
next
  case (finish url)
  then show ?thesis by (simp add: step_finish remaining_finish)
qed

lemma remaining_0: "remaining st = 0 \<longleftrightarrow> all_settled st"
proof -
  have "weight p = 0 \<longleftrightarrow> is_settled p" for p by (cases p) auto
  then show ?thesis
    by (auto simp: remaining_def all_settled_def list_all_iff)
qed

lemma ready_sound: "i \<in> set (ready st) \<Longrightarrow> i < length (tasks st) \<and> can_move st i"
  by (auto simp: ready_def)

lemma not_settled_ready:
  assumes coh: "coherent env links od cap st" and cap: "0 < cap" and ns: "\<not> all_settled st"
  shows "ready st \<noteq> []"
proof -
  from ns obtain i where i: "i < length (tasks st)" and p: "\<not> is_settled (snd (tasks st ! i))"
    by (auto simp: all_settled_def list_all_length)
  show ?thesis
  proof (cases "active st = 0")
    case True
    then have "0 < sem st" using coh cap by (simp add: coherent_def)
    moreover have "snd (tasks st ! i) = Waiting"
    proof (cases "snd (tasks st ! i)")
      case Running
      then have "tasks st ! i \<in> set (filter (\<lambda>t. snd t = Running) (tasks st))"
        using i by simp
      then show ?thesis using True by (auto simp: active_def filter_empty_conv)
    qed (use p in auto)
    ultimately have "can_move st i" by (simp add: can_move_def)
    then show ?thesis using i by (auto simp: ready_def filter_empty_conv)
  next
    case False
    then obtain t where "t \<in> set (tasks st)" and "snd t = Running"
      by (auto simp: active_def filter_empty_conv)
    then obtain j where "j < length (tasks st)" and "snd (tasks st ! j) = Running"
      by (auto simp: in_set_conv_nth)
    then have "j < length (tasks st) \<and> can_move st j" by (simp add: can_move_def)
    then show ?thesis by (auto simp: ready_def filter_empty_conv)
  qed
qed

lemma turn_progress:
  assumes coh: "coherent env links od cap st" and cap: "0 < cap" and ns: "\<not> all_settled st"
  shows "Suc (remaining (turn env c st)) = remaining st"
proof -
  have ne: "ready st \<noteq> []" by (rule not_settled_ready [OF coh cap ns])
  then obtain r rs where rd: "ready st = r # rs" by (cases "ready st") auto
  have "(r # rs) ! (c mod length (r # rs)) \<in> set (ready st)"
    unfolding rd by (rule nth_mem) simp
  then have "Suc (remaining (step env ((r # rs) ! (c mod length (r # rs))) st)) = remaining st"
    using ready_sound remaining_step by blast
  then show ?thesis by (simp add: turn_def rd)
qed

lemma run_settles:
  assumes "coherent env links od cap st" and "0 < cap" and "remaining st \<le> length sched"
  shows "all_settled (last (run env sched st))"
  using assms
proof (induction sched arbitrary: st)
  case Nil
  then show ?case by (simp add: remaining_0)
next
  case (Cons c cs)
  show ?case
  proof (cases "all_settled st")
    case True
    then show ?thesis by simp
  next
    case False
    have "remaining (turn env c st) \<le> length cs"
      using turn_progress [OF Cons.prems(1,2) False, of c] Cons.prems(3) by simp
    then have "all_settled (last (run env cs (turn env c st)))"
      using Cons.IH [OF coherent_turn [OF Cons.prems(1)] Cons.prems(2)] by blast
    moreover have "run env cs (turn env c st) \<noteq> []" by (cases cs) auto
    ultimately show ?thesis using False by simp
  qed
qed

lemma coherent_results:
  assumes coh: "coherent env links od cap st" and fin: "all_settled st"
  shows "results st = map (\<lambda>(i, url). settles_with env od i url) (enumerate 0 links)"
proof (rule nth_equalityI)
  have len: "length (tasks st) = length links"
    using coh by (auto simp: coherent_def dest: arg_cong [where f = length])
  show "length (results st) = length (map (\<lambda>(i, url). settles_with env od i url) (enumerate 0 links))"
    by (simp add: results_def len)
  fix i
  assume "i < length (results st)"
  then have i: "i < length (tasks st)" by (simp add: results_def)
  obtain url p where t: "tasks st ! i = (url, p)" by (cases "tasks st ! i")
  have "is_settled p"
    using fin i t by (auto simp: all_settled_def list_all_length)
  then obtain r where p: "p = Settled r" by (cases p) auto
  have url: "links ! i = url"
    using coh i t by (auto simp: coherent_def dest: arg_cong [where f = "\<lambda>xs. xs ! i"])
  have "r = settles_with env od i url"
    using coh i t p by (auto simp: coherent_def)
  then show "results st ! i = map (\<lambda>(i, url). settles_with env od i url) (enumerate 0 links) ! i"
    using i t p url len by (simp add: results_def nth_enumerate_eq)
qed

lemma successes_of_results:
  "map the (filter (\<lambda>r. r \<noteq> None) (map (\<lambda>(i, url). settles_with env od i url) xs)) =
     map (\<lambda>(i, url). last (split CHR ''/'' url))
       (filter (\<lambda>(i, url). \<not> download_fails (task_io env i) url od) xs)"
  by (induction xs) (auto simp: settles_with_eq)

lemma coherent_launch:
  "coherent env links od cap
     (launch links \<lparr>out_dir = od, tracker = AsyncDownloadProgress_init (int (length links)),
                     sem = cap, tasks = [], outside = w\<rparr>)"
  by (simp add: coherent_def launch_def active_def AsyncDownloadProgress_init_def tqdm_init_def
        comp_def filter_empty_conv)

lemma remaining_launch: "remaining (launch links st) = 2 * length links"
  by (induction links) (auto simp: remaining_def launch_def)

lemma run_not_Nil: "run env sched st \<noteq> []"
  by (cases sched) auto

lemma last_run_in_run: "last (run env sched st) \<in> set (run env sched st)"
  by (simp add: run_not_Nil)

lemma gather_Some:
  assumes "coherent env links od cap st0" and "gather env sched st0 = Some st"
  shows "coherent env links od cap st \<and> all_settled st \<and> st \<in> set (run env sched st0)"
proof -
  have st: "st = last (run env sched st0)" and fin: "all_settled st"
    using assms(2) by (auto simp: gather_def Let_def split: if_splits)
  then show ?thesis
    using coherent_run [OF assms(1) last_run_in_run] last_run_in_run by simp
qed

lemma gather_total:
  assumes "coherent env links od cap st0" and "0 < cap" and "remaining st0 \<le> length sched"
  shows "\<exists>st. gather env sched st0 = Some st"
  using run_settles [OF assms] by (simp add: gather_def Let_def)

lemma prepare_ok:
  assumes "os_makedirs env (output_dir_name radar year month day) (dirs w) = Inr ds"
    and "0 \<le> max_concurrent"
  shows "prepare env links radar year month day max_concurrent w =
           Inr \<lparr>out_dir = output_dir_name radar year month day,
                tracker = AsyncDownloadProgress_init (int (length links)),
                sem = nat max_concurrent, tasks = [], outside = w\<lparr>dirs := ds\<rparr>\<rparr>"
  using assms by (simp add: prepare_def Semaphore_def Let_def)

lemma prepare_Inr:
  assumes "prepare env links radar year month day max_concurrent w = Inr st0"
  shows "\<exists>ds. os_makedirs env (output_dir_name radar year month day) (dirs w) = Inr ds \<and>
           0 \<le> max_concurrent \<and>
           st0 = \<lparr>out_dir = output_dir_name radar year month day,
                  tracker = AsyncDownloadProgress_init (int (length links)),
                  sem = nat max_concurrent, tasks = [], outside = w\<lparr>dirs := ds\<rparr>\<rparr>"
  using assms
  by (auto simp: prepare_def Semaphore_def Let_def split: sum.splits if_splits)

lemma returned_list:
  assumes "coherent env links od cap st" and "all_settled st"
  shows "map the (filter (\<lambda>r. r \<noteq> None) (results st)) =
           map (\<lambda>(i, url). last (split CHR ''/'' url))
             (filter (\<lambda>(i, url). \<not> download_fails (task_io env i) url od) (enumerate 0 links))"
  unfolding coherent_results [OF assms] by (rule successes_of_results)

lemma download_files_Returned:
  assumes "download_files env sched links radar year month day max_concurrent w =
             Some (Returned fs st)"
  shows "\<exists>st'. st = st'\<lparr>tracker := close (tracker st')\<rparr> \<and>
           coherent env links (output_dir_name radar year month day) (nat max_concurrent) st' \<and>
           all_settled st' \<and>
           fs = map the (filter (\<lambda>r. r \<noteq> None) (results st'))"
proof -
  from assms obtain st0 where p: "prepare env links radar year month day max_concurrent w = Inr st0"
    by (auto simp: download_files_def split: sum.splits prod.splits)
  from assms p obtain st' where g: "gather env sched (launch links st0) = Some st'"
    and st: "st = st'\<lparr>tracker := close (tracker st')\<rparr>"
    and fs: "fs = map the (filter (\<lambda>r. r \<noteq> None) (results st'))"
    by (auto simp: download_files_def split: option.splits)
  from prepare_Inr [OF p] have
    "coherent env links (output_dir_name radar year month day) (nat max_concurrent) (launch links st0)"
    using coherent_launch by auto
  from gather_Some [OF this g] st fs show ?thesis by blast
qed

lemma download_files_total:
  assumes mk: "os_makedirs env (output_dir_name radar year month day) (dirs w) = Inr ds"
    and cap: "1 \<le> max_concurrent"
    and sched: "2 * length links \<le> length sched"
  shows "\<exists>fs st. download_files env sched links radar year month day max_concurrent w =
           Some (Returned fs st)"
proof -
  let ?st0 = "\<lparr>out_dir = output_dir_name radar year month day,
                tracker = AsyncDownloadProgress_init (int (length links)),
                sem = nat max_concurrent, tasks = [], outside = w\<lparr>dirs := ds\<rparr>\<rparr>"
  have p: "prepare env links radar year month day max_concurrent w = Inr ?st0"
    using mk cap by (simp add: prepare_ok)
  have "coherent env links (output_dir_name radar year month day) (nat max_concurrent)
          (launch links ?st0)"
    by (rule coherent_launch)
  moreover have "0 < nat max_concurrent" using cap by simp
  moreover have "remaining (launch links ?st0) \<le> length sched"
    using sched by (simp add: remaining_launch)
  ultimately obtain st where "gather env sched (launch links ?st0) = Some st"
    using gather_total by blast
  then show ?thesis by (simp add: download_files_def p)
qed

lemma length_filter_compl:
  "length (filter (\<lambda>x. \<not> P x) xs) = length xs - length (filter P xs)"
  using sum_length_filter_compl [of P xs] by simp

section \<open>Failures stay inside their task\<close>

text \<open>
  Claim C1. Let the preparation succeed (the output directory can be made and the
  cap is at least 1). Then for every link list of length \<open>N\<close>, every environment and
  every schedule with enough turns (two per link), \<^verbatim>\<open>download_files\<close> returns
  normally, and the list it returns has exactly \<open>N - M\<close> filenames, where \<open>M\<close> is the
  number of tasks whose fetch or write fails. No failure of a task leaves the task.
\<close>

theorem download_files_isolates_failures:
  assumes mk: "os_makedirs env (output_dir_name radar year month day) (dirs w) = Inr ds"
    and cap: "1 \<le> max_concurrent"
    and sched: "2 * length links \<le> length sched"
  shows "\<exists>fs st. download_files env sched links radar year month day max_concurrent w =
                   Some (Returned fs st) \<and>
           length fs = length links -
             length (filter (\<lambda>(i, url). download_fails (task_io env i) url
                                          (output_dir_name radar year month day))
                       (enumerate 0 links))"
proof -
  obtain fs st where r: "download_files env sched links radar year month day max_concurrent w =
      Some (Returned fs st)"
    using download_files_total [OF assms] by blast
  from download_files_Returned [OF r] obtain st' where
    coh: "coherent env links (output_dir_name radar year month day) (nat max_concurrent) st'"
    and fin: "all_settled st'"
    and fs: "fs = map the (filter (\<lambda>r. r \<noteq> None) (results st'))"
    by blast
  have "length fs = length (filter (\<lambda>(i, url). \<not> download_fails (task_io env i) url
                                          (output_dir_name radar year month day))
                       (enumerate 0 links))"
    unfolding fs returned_list [OF coh fin] by simp
  also have "\<dots> = length (enumerate 0 links) -
             length (filter (\<lambda>(i, url). download_fails (task_io env i) url
                                          (output_dir_name radar year month day))
                       (enumerate 0 links))"
    using length_filter_compl [of "\<lambda>(i, url). download_fails (task_io env i) url
                                          (output_dir_name radar year month day)" "enumerate 0 links"]
    by (simp add: case_prod_unfold)
  finally show ?thesis using r by simp
qed

theorem download_files_isolates_failures_witness:
  "os_makedirs demo_env (output_dir_name ''KHTX'' ''2025'' ''03'' ''15'') (dirs demo_world) =
      Inr {''KHTX_2025_03_15''} \<and>
   (1::int) \<le> 20 \<and> 2 * length demo_links \<le> length [0, 0, 0, 0, 0, 0 :: nat] \<and>
   (\<exists>fs st. download_files demo_env [0, 0, 0, 0, 0, 0] demo_links ''KHTX'' ''2025'' ''03'' ''15'' 20
               demo_world = Some (Returned fs st) \<and> length fs = 3 - 1)"
proof -
  have mk: "os_makedirs demo_env (output_dir_name ''KHTX'' ''2025'' ''03'' ''15'') (dirs demo_world) =
      Inr {''KHTX_2025_03_15''}"
    by (simp add: demo_env_def demo_world_def output_dir_name_def)
  have sched: "2 * length demo_links \<le> length [0, 0, 0, 0, 0, 0 :: nat]"
    by (simp add: demo_links_def)
  have cnt: "length (filter (\<lambda>(i, url). download_fails (task_io demo_env i) url
                                (output_dir_name ''KHTX'' ''2025'' ''03'' ''15''))
                       (enumerate 0 demo_links)) = 1"
    by (simp add: demo_links_def demo_env_def download_fails_def fetch_fails_def write_fails_def
          good_io_def bad_io_def ok_response_def Let_def)
  have "(1::int) \<le> 20" by simp
  note inst = download_files_isolates_failures [OF mk this sched, unfolded cnt]
  show ?thesis
    using inst mk sched by (simp add: demo_links_def numeral_2_eq_2)
qed

lemma demo_returns:
  "download_files demo_env [0, 0, 0, 0, 0, 0] demo_links ''KHTX'' ''2025'' ''03'' ''15'' 20 demo_world =
     Some (Returned [''A'', ''C''] demo_final)"
  by (simp add: download_files_def prepare_def output_dir_name_def Semaphore_def launch_def
        gather_def turn_def ready_def can_move_def step_def all_settled_def results_def
        download_file_def download_attempt_def raise_for_status_def os_path_join_def
        update_def close_def tqdm_update_def tqdm_close_def set_postfix_str_def
        AsyncDownloadProgress_init_def tqdm_init_def
        demo_env_def demo_world_def demo_links_def good_io_def bad_io_def ok_response_def
        demo_final_def Let_def upt_rec)

lemma demo_evals:
  "output_dir_name ''KHTX'' ''2025'' ''03'' ''15'' = ''KHTX_2025_03_15''"
  "os_makedirs demo_env ''KHTX_2025_03_15'' (dirs demo_world) = Inr {''KHTX_2025_03_15''}"
  "length demo_links = 3"
  "demo_links ! 0 = ''http://h/x/A''"
  "demo_links ! 2 = ''http://h/x/C''"
  "\<not> download_fails (task_io demo_env 0) ''http://h/x/A'' ''KHTX_2025_03_15''"
  "fetch_fails (task_io demo_env 1) ''http://h/x/B''"
  "\<not> download_fails (task_io demo_env 2) ''http://h/x/C'' ''KHTX_2025_03_15''"
  "last (split CHR ''/'' ''http://h/x/A'') = ''A''"
  "last (split CHR ''/'' ''http://h/x/C'') = ''C''"
  by (simp_all add: output_dir_name_def demo_env_def demo_world_def demo_links_def
        download_fails_def fetch_fails_def write_fails_def good_io_def bad_io_def
        ok_response_def Let_def)

section \<open>The semaphore bounds the tasks at work\<close>

text \<open>
  Claim C3. Whenever the preparation succeeds (which needs a cap that is not
  negative), in every frame the event loop goes through, under every schedule, the
  number of tasks inside \<^verbatim>\<open>async with sem\<close> (fetching or writing) is at most
  \<^verbatim>\<open>max_concurrent\<close>. Admission is by the counter of the semaphore: the counter and
  the number of tasks at work always add up to the cap.
\<close>

theorem active_tasks_within_cap:
  assumes "prepare env links radar year month day max_concurrent w = Inr st0"
    and "s \<in> set (run env sched (launch links st0))"
  shows "int (active s) \<le> max_concurrent \<and> int (sem s) + int (active s) = max_concurrent"
proof -
  from prepare_Inr [OF assms(1)] have cap: "0 \<le> max_concurrent"
    and "coherent env links (output_dir_name radar year month day) (nat max_concurrent)
           (launch links st0)"
    using coherent_launch by auto
  from coherent_run [OF this(2) assms(2)]
  have "sem s + active s = nat max_concurrent" by (simp add: coherent_def)
  then show ?thesis using cap by linarith
qed

theorem active_tasks_within_cap_witness:
  "prepare demo_env demo_links ''KHTX'' ''2025'' ''03'' ''15'' 2 demo_world = Inr demo_prepared \<and>
   demo_busy \<in> set (run demo_env [0, 1] (launch demo_links demo_prepared)) \<and>
   active demo_busy = 2 \<and>
   int (active demo_busy) \<le> 2 \<and> int (sem demo_busy) + int (active demo_busy) = 2"
proof -
  have p: "prepare demo_env demo_links ''KHTX'' ''2025'' ''03'' ''15'' 2 demo_world = Inr demo_prepared"
    by (simp add: prepare_def output_dir_name_def Semaphore_def demo_env_def demo_world_def
          demo_links_def demo_prepared_def Let_def)
  have r: "demo_busy \<in> set (run demo_env [0, 1] (launch demo_links demo_prepared))"
    by (simp add: launch_def turn_def ready_def can_move_def step_def all_settled_def
          demo_links_def demo_prepared_def demo_busy_def upt_rec)
  have a: "active demo_busy = 2"
    by (simp add: active_def demo_busy_def)
  show ?thesis
    using active_tasks_within_cap [OF p r] p r a by simp
qed

section \<open>One task and one result per link\<close>

text \<open>
  Claim C4. For a link list of length \<open>N\<close>, \<^verbatim>\<open>gather\<close> is given exactly \<open>N\<close> tasks, and
  every frame of the run has \<open>N\<close> tasks. When the preparation succeeds with a cap of at
  least 1 and the schedule has two turns per link, the call returns; in the frame it
  returns from, all \<open>N\<close> tasks have settled, there are \<open>N\<close> results, and the results
  that are filenames (the list returned) and the results that are \<^verbatim>\<open>None\<close> number \<open>N\<close>
  together. Whatever the schedule and the cap, a call that returns a list returns from
  a frame in which all \<open>N\<close> tasks have settled.
\<close>

theorem download_files_one_result_per_link:
  assumes mk: "os_makedirs env (output_dir_name radar year month day) (dirs w) = Inr ds"
    and cap: "1 \<le> max_concurrent"
    and sched: "2 * length links \<le> length sched"
  shows "(\<exists>fs st. download_files env sched links radar year month day max_concurrent w =
                    Some (Returned fs st) \<and>
            length (tasks st) = length links \<and> all_settled st \<and>
            length (results st) = length links \<and>
            length fs = length (filter (\<lambda>r. r \<noteq> None) (results st)) \<and>
            length fs + length (filter (\<lambda>r. r = None) (results st)) = length links) \<and>
         (\<forall>st0 s sched'. prepare env links radar year month day max_concurrent w = Inr st0 \<longrightarrow>
            s \<in> set (run env sched' (launch links st0)) \<longrightarrow> length (tasks s) = length links) \<and>
         (\<forall>sched' c fs st. download_files env sched' links radar year month day c w =
                    Some (Returned fs st) \<longrightarrow>
            all_settled st \<and> length (tasks st) = length links)"
proof (intro conjI allI impI)
  obtain fs st where r: "download_files env sched links radar year month day max_concurrent w =
      Some (Returned fs st)"
    using download_files_total [OF assms] by blast
  from download_files_Returned [OF r] obtain st' where
    st: "st = st'\<lparr>tracker := close (tracker st')\<rparr>"
    and coh: "coherent env links (output_dir_name radar year month day) (nat max_concurrent) st'"
    and fin: "all_settled st'"
    and fs: "fs = map the (filter (\<lambda>r. r \<noteq> None) (results st'))"
    by blast
  have len: "length (tasks st) = length links"
    using coh by (auto simp: st coherent_def dest: arg_cong [where f = length])
  have res: "results st = results st'" by (simp add: st results_def)
  have "length (filter (\<lambda>r. r \<noteq> None) (results st)) +
          length (filter (\<lambda>r. r = None) (results st)) = length (results st)"
    using sum_length_filter_compl [of "\<lambda>r. r \<noteq> None" "results st"] by simp
  then show "\<exists>fs st. download_files env sched links radar year month day max_concurrent w =
                    Some (Returned fs st) \<and>
            length (tasks st) = length links \<and> all_settled st \<and>
            length (results st) = length links \<and>
            length fs = length (filter (\<lambda>r. r \<noteq> None) (results st)) \<and>
            length fs + length (filter (\<lambda>r. r = None) (results st)) = length links"
    using r len fin fs res by (auto simp: st all_settled_def results_def)
next
  fix st0 s sched'
  assume p: "prepare env links radar year month day max_concurrent w = Inr st0"
    and s: "s \<in> set (run env sched' (launch links st0))"
  from prepare_Inr [OF p] have
    "coherent env links (output_dir_name radar year month day) (nat max_concurrent)
           (launch links st0)"
    using coherent_launch by auto
  from coherent_run [OF this s] show "length (tasks s) = length links"
    by (auto simp: coherent_def dest: arg_cong [where f = length])
next
  fix sched' c fs st
  assume r: "download_files env sched' links radar year month day c w = Some (Returned fs st)"
  from download_files_Returned [OF r] obtain st' where
    st: "st = st'\<lparr>tracker := close (tracker st')\<rparr>"
    and coh: "coherent env links (output_dir_name radar year month day) (nat c) st'"
    and fin: "all_settled st'"
    by blast
  show "all_settled st" using fin by (simp add: st all_settled_def)
  show "length (tasks st) = length links"
    using coh by (auto simp: st coherent_def dest: arg_cong [where f = length])
qed

theorem download_files_one_result_per_link_witness:
  "os_makedirs demo_env (output_dir_name ''KHTX'' ''2025'' ''03'' ''15'') (dirs demo_world) =
      Inr {''KHTX_2025_03_15''} \<and>
   (1::int) \<le> 20 \<and> 2 * length demo_links \<le> length [0, 0, 0, 0, 0, 0 :: nat] \<and>
   prepare demo_env demo_links ''KHTX'' ''2025'' ''03'' ''15'' 20 demo_world = Inr demo_prepared20 \<and>
   launch demo_links demo_prepared20 \<in> set (run demo_env [] (launch demo_links demo_prepared20)) \<and>
   length (tasks (launch demo_links demo_prepared20)) = length demo_links \<and>
   download_files demo_env [0, 0, 0, 0, 0, 0] demo_links ''KHTX'' ''2025'' ''03'' ''15'' 20 demo_world =
     Some (Returned [''A'', ''C''] demo_final) \<and>
   all_settled demo_final \<and> length (tasks demo_final) = length demo_links \<and>
   (\<exists>fs st. download_files demo_env [0, 0, 0, 0, 0, 0] demo_links ''KHTX'' ''2025'' ''03'' ''15'' 20
               demo_world = Some (Returned fs st) \<and>
      length (results st) = length demo_links \<and>
      length fs + length (filter (\<lambda>r. r = None) (results st)) = length demo_links)"
proof -
  have mk: "os_makedirs demo_env (output_dir_name ''KHTX'' ''2025'' ''03'' ''15'') (dirs demo_world) =
      Inr {''KHTX_2025_03_15''}"
    by (simp add: demo_evals)
  have cap: "(1::int) \<le> 20" by simp
  have sched: "2 * length demo_links \<le> length [0, 0, 0, 0, 0, 0 :: nat]"
    by (simp add: demo_evals)
  have p: "prepare demo_env demo_links ''KHTX'' ''2025'' ''03'' ''15'' 20 demo_world = Inr demo_prepared20"
    by (simp add: prepare_def output_dir_name_def Semaphore_def demo_env_def demo_world_def
          demo_links_def demo_prepared20_def Let_def)
  have r: "launch demo_links demo_prepared20 \<in> set (run demo_env [] (launch demo_links demo_prepared20))"
    by simp
  note inst = download_files_one_result_per_link [OF mk cap sched]
  from inst have a: "\<exists>fs st. download_files demo_env [0, 0, 0, 0, 0, 0] demo_links ''KHTX'' ''2025'' ''03'' ''15'' 20
               demo_world = Some (Returned fs st) \<and>
      length (results st) = length demo_links \<and>
      length fs + length (filter (\<lambda>r. r = None) (results st)) = length demo_links"
    by blast
  from inst p r have b: "length (tasks (launch demo_links demo_prepared20)) = length demo_links"
    by blast
  from inst demo_returns have c: "all_settled demo_final \<and> length (tasks demo_final) = length demo_links"
    by blast
  show ?thesis using mk cap sched p r a b c demo_returns by blast
qed

section \<open>What the tracker counts\<close>

lemma result_success: "(result_of t \<noteq> None) = is_success t"
  by (cases t rule: is_success.cases) auto

lemma length_successes:
  "length (filter (\<lambda>r. r \<noteq> None) (results st)) = length (filter is_success (tasks st))"
  by (simp add: results_def filter_map comp_def result_success del: not_None_eq)

lemma tracker_close:
  "completed (close t) = completed t \<and> lock (close t) = lock t \<and>
   bar_n (progress_bar (close t)) = bar_n (progress_bar t) \<and>
   bar_total (progress_bar (close t)) = bar_total (progress_bar t) \<and>
   bar_closed (progress_bar (close t))"
  by (simp add: close_def tqdm_close_def)

lemma successes_count:
  assumes "coherent env links od cap st" and "all_settled st"
  shows "length (filter (\<lambda>r. r \<noteq> None) (results st)) =
           length links - length (filter (\<lambda>(i, url). download_fails (task_io env i) url od)
                                    (enumerate 0 links))"
proof -
  have "length (filter (\<lambda>r. r \<noteq> None) (results st)) =
          length (map the (filter (\<lambda>r. r \<noteq> None) (results st)))"
    by simp
  also have "\<dots> = length (filter (\<lambda>(i, url). \<not> download_fails (task_io env i) url od)
                          (enumerate 0 links))"
    unfolding returned_list [OF assms] by simp
  also have "\<dots> = length (enumerate 0 links) -
      length (filter (\<lambda>(i, url). download_fails (task_io env i) url od) (enumerate 0 links))"
    using length_filter_compl [of "\<lambda>(i, url). download_fails (task_io env i) url od"
        "enumerate 0 links"]
    by (simp add: case_prod_unfold)
  finally show ?thesis by simp
qed

text \<open>
  Claim C2, as the code has it. A task records a completion only when it succeeds:
  \<^verbatim>\<open>download_file\<close> calls \<^verbatim>\<open>update\<close> with the derived filename after the file is
  written, and on any failure (fetch or write) it leaves the tracker as it was. Hence
  when \<^verbatim>\<open>download_files\<close> returns, the completed count and the counter of the bar
  equal the number of files returned, \<open>N - M\<close>, while the total of the bar is \<open>N\<close>.
\<close>

theorem tracker_counts_saved_files:
  assumes mk: "os_makedirs env (output_dir_name radar year month day) (dirs w) = Inr ds"
    and cap: "1 \<le> max_concurrent"
    and sched: "2 * length links \<le> length sched"
  shows "(\<exists>fs st. download_files env sched links radar year month day max_concurrent w =
                    Some (Returned fs st) \<and>
            completed (tracker st) = int (length fs) \<and>
            bar_n (progress_bar (tracker st)) = int (length fs) \<and>
            bar_total (progress_bar (tracker st)) = int (length links) \<and>
            length fs = length links -
              length (filter (\<lambda>(i, url). download_fails (task_io env i) url
                                           (output_dir_name radar year month day))
                        (enumerate 0 links))) \<and>
         (\<forall>session url od t w'.
            fst (snd (download_file session url od t w')) =
              (if download_fails session url od then t
               else update (Some (last (split CHR ''/'' url))) t))"
proof (intro conjI allI)
  obtain fs st where r: "download_files env sched links radar year month day max_concurrent w =
      Some (Returned fs st)"
    using download_files_total [OF assms] by blast
  from download_files_Returned [OF r] obtain st' where
    st: "st = st'\<lparr>tracker := close (tracker st')\<rparr>"
    and coh: "coherent env links (output_dir_name radar year month day) (nat max_concurrent) st'"
    and fin: "all_settled st'"
    and fs: "fs = map the (filter (\<lambda>r. r \<noteq> None) (results st'))"
    by blast
  have len: "length fs = length (filter is_success (tasks st'))"
    unfolding fs by (simp add: length_successes del: not_None_eq)
  have cnt: "length fs = length links -
              length (filter (\<lambda>(i, url). download_fails (task_io env i) url
                                           (output_dir_name radar year month day))
                        (enumerate 0 links))"
    using successes_count [OF coh fin] by (simp add: fs)
  have "completed (tracker st) = int (length fs)"
    and "bar_n (progress_bar (tracker st)) = int (length fs)"
    and "bar_total (progress_bar (tracker st)) = int (length links)"
    using coh by (simp_all add: st len tracker_close coherent_def)
  then show "\<exists>fs st. download_files env sched links radar year month day max_concurrent w =
                    Some (Returned fs st) \<and>
            completed (tracker st) = int (length fs) \<and>
            bar_n (progress_bar (tracker st)) = int (length fs) \<and>
            bar_total (progress_bar (tracker st)) = int (length links) \<and>
            length fs = length links -
              length (filter (\<lambda>(i, url). download_fails (task_io env i) url
                                           (output_dir_name radar year month day))
                        (enumerate 0 links))"
    using r cnt by blast
next
  fix session url od t w'
  show "fst (snd (download_file session url od t w')) =
              (if download_fails session url od then t
               else update (Some (last (split CHR ''/'' url))) t)"
    by (rule download_file_tracker)
qed

theorem tracker_counts_saved_files_witness:
  "os_makedirs demo_env (output_dir_name ''KHTX'' ''2025'' ''03'' ''15'') (dirs demo_world) =
      Inr {''KHTX_2025_03_15''} \<and>
   (1::int) \<le> 20 \<and> 2 * length demo_links \<le> length [0, 0, 0, 0, 0, 0 :: nat] \<and>
   (\<exists>fs st. download_files demo_env [0, 0, 0, 0, 0, 0] demo_links ''KHTX'' ''2025'' ''03'' ''15'' 20
               demo_world = Some (Returned fs st) \<and>
      completed (tracker st) = 2 \<and> bar_total (progress_bar (tracker st)) = 3 \<and> length fs = 2)"
proof -
  have mk: "os_makedirs demo_env (output_dir_name ''KHTX'' ''2025'' ''03'' ''15'') (dirs demo_world) =
      Inr {''KHTX_2025_03_15''}"
    by (simp add: demo_evals)
  have cap: "(1::int) \<le> 20" by simp
  have sched: "2 * length demo_links \<le> length [0, 0, 0, 0, 0, 0 :: nat]"
    by (simp add: demo_evals)
  have cnt: "length (filter (\<lambda>(i, url). download_fails (task_io demo_env i) url
                                (output_dir_name ''KHTX'' ''2025'' ''03'' ''15''))
                       (enumerate 0 demo_links)) = 1"
    by (simp add: demo_links_def demo_env_def download_fails_def fetch_fails_def write_fails_def
          good_io_def bad_io_def ok_response_def Let_def)
  from tracker_counts_saved_files [OF mk cap sched, unfolded cnt]
  obtain fs st where
    "download_files demo_env [0, 0, 0, 0, 0, 0] demo_links ''KHTX'' ''2025'' ''03'' ''15'' 20
       demo_world = Some (Returned fs st)"
    "completed (tracker st) = int (length fs)"
    "bar_total (progress_bar (tracker st)) = int (length demo_links)"
    "length fs = length demo_links - 1"
    by blast
  then have "download_files demo_env [0, 0, 0, 0, 0, 0] demo_links ''KHTX'' ''2025'' ''03'' ''15'' 20
       demo_world = Some (Returned fs st) \<and>
      completed (tracker st) = 2 \<and> bar_total (progress_bar (tracker st)) = 3 \<and> length fs = 2"
    by (simp add: demo_evals)
  then show ?thesis using mk cap sched by blast
qed

text \<open>
  The claim as the specification states it fails on the batch of three links whose
  second fetch is refused: two files are returned and the completed count ends at 2,
  not 3; the failed task leaves the tracker as it found it, which is not what
  \<^verbatim>\<open>update(None)\<close> would give.
\<close>

theorem failed_fetch_is_not_recorded:
  "fetch_fails (task_io demo_env 1) ''http://h/x/B'' \<and>
   \<not> download_fails (task_io demo_env 0) ''http://h/x/A'' ''KHTX_2025_03_15'' \<and>
   \<not> download_fails (task_io demo_env 2) ''http://h/x/C'' ''KHTX_2025_03_15'' \<and>
   returned_files (download_files demo_env [0, 0, 0, 0, 0, 0] demo_links
       ''KHTX'' ''2025'' ''03'' ''15'' 20 demo_world) = Some [''A'', ''C''] \<and>
   map_option completed (final_tracker (download_files demo_env [0, 0, 0, 0, 0, 0] demo_links
       ''KHTX'' ''2025'' ''03'' ''15'' 20 demo_world)) = Some 2 \<and>
   map_option completed (final_tracker (download_files demo_env [0, 0, 0, 0, 0, 0] demo_links
       ''KHTX'' ''2025'' ''03'' ''15'' 20 demo_world)) \<noteq> Some 3 \<and>
   fst (snd (download_file (task_io demo_env 1) ''http://h/x/B'' ''KHTX_2025_03_15''
               (AsyncDownloadProgress_init 3) demo_world)) = AsyncDownloadProgress_init 3 \<and>
   fst (snd (download_file (task_io demo_env 1) ''http://h/x/B'' ''KHTX_2025_03_15''
               (AsyncDownloadProgress_init 3) demo_world)) \<noteq> update None (AsyncDownloadProgress_init 3)"
proof -
  have t: "fst (snd (download_file (task_io demo_env 1) ''http://h/x/B'' ''KHTX_2025_03_15''
               (AsyncDownloadProgress_init 3) demo_world)) = AsyncDownloadProgress_init 3"
    by (simp add: download_file_def download_attempt_def demo_env_def bad_io_def)
  have u: "completed (update None (AsyncDownloadProgress_init 3)) \<noteq>
             completed (AsyncDownloadProgress_init 3)"
    by (simp add: completed_update)
  have ne: "AsyncDownloadProgress_init 3 \<noteq> update None (AsyncDownloadProgress_init 3)"
    using u by metis
  have r: "returned_files (download_files demo_env [0, 0, 0, 0, 0, 0] demo_links
       ''KHTX'' ''2025'' ''03'' ''15'' 20 demo_world) = Some [''A'', ''C'']"
    by (simp add: demo_returns returned_files_def)
  have c: "map_option completed (final_tracker (download_files demo_env [0, 0, 0, 0, 0, 0] demo_links
       ''KHTX'' ''2025'' ''03'' ''15'' 20 demo_world)) = Some 2"
    by (simp add: demo_returns final_tracker_def demo_final_def)
  have c': "map_option completed (final_tracker (download_files demo_env [0, 0, 0, 0, 0, 0] demo_links
       ''KHTX'' ''2025'' ''03'' ''15'' 20 demo_world)) \<noteq> Some 3"
    unfolding c by simp
  show ?thesis
    using demo_evals(6,7,8) r c c' t ne by (simp only: simp_thms)
qed

section \<open>Failures of the preparation\<close>

lemma run_stuck:
  assumes "ready st = []"
  shows "set (run env sched st) = {st} \<and> last (run env sched st) = st"
proof (induction sched)
  case Nil
  show ?case by simp
next
  case (Cons c cs)
  have "turn env c st = st" using assms by (simp add: turn_def)
  then show ?case using Cons by (simp add: run_not_Nil)
qed

lemma ready_no_units:
  assumes "sem st = 0"
  shows "ready (launch links st) = []"
  using assms by (auto simp: ready_def launch_def can_move_def filter_empty_conv)

text \<open>
  Claim C5, as the code has it. \<^verbatim>\<open>download_files\<close> has no check of the cap of its
  own. Two failures of the preparation leave the function before any task exists: an
  exception of \<^verbatim>\<open>os.makedirs\<close> (the world is untouched), and the \<^verbatim>\<open>ValueError\<close> that
  \<^verbatim>\<open>asyncio.Semaphore\<close> raises for a negative cap (only the directory has been made; no
  file is written and nothing is printed). Both happen under every schedule, so
  before any turn of the event loop. A cap of 0 is accepted: with links to fetch, the
  tasks are handed to \<^verbatim>\<open>gather\<close>, all of them wait for the semaphore in every frame,
  and the call does not return under any schedule.
\<close>

theorem preparation_failures:
  "(\<forall>e. os_makedirs env (output_dir_name radar year month day) (dirs w) = Inl e \<longrightarrow>
      download_files env sched links radar year month day max_concurrent w =
        Some (Raised e w)) \<and>
   (\<forall>ds. os_makedirs env (output_dir_name radar year month day) (dirs w) = Inr ds \<longrightarrow>
      max_concurrent < 0 \<longrightarrow>
      download_files env sched links radar year month day max_concurrent w =
        Some (Raised (ValueError ''Semaphore initial value must be >= 0'') (w\<lparr>dirs := ds\<rparr>))) \<and>
   (\<forall>ds. os_makedirs env (output_dir_name radar year month day) (dirs w) = Inr ds \<longrightarrow>
      max_concurrent = 0 \<longrightarrow> links \<noteq> [] \<longrightarrow>
      download_files env sched links radar year month day max_concurrent w = None \<and>
      (\<exists>st0. prepare env links radar year month day max_concurrent w = Inr st0 \<and>
         (\<forall>s \<in> set (run env sched (launch links st0)).
            tasks s = map (\<lambda>link. (link, Waiting)) links)))"
proof (intro conjI allI impI)
  fix e
  assume "os_makedirs env (output_dir_name radar year month day) (dirs w) = Inl e"
  then show "download_files env sched links radar year month day max_concurrent w =
        Some (Raised e w)"
    by (simp add: download_files_def prepare_def Let_def)
next
  fix ds
  assume "os_makedirs env (output_dir_name radar year month day) (dirs w) = Inr ds"
    and "max_concurrent < 0"
  then show "download_files env sched links radar year month day max_concurrent w =
        Some (Raised (ValueError ''Semaphore initial value must be >= 0'') (w\<lparr>dirs := ds\<rparr>))"
    by (simp add: download_files_def prepare_def Semaphore_def Let_def)
next
  fix ds
  assume mk: "os_makedirs env (output_dir_name radar year month day) (dirs w) = Inr ds"
    and cap: "max_concurrent = 0" and ne: "links \<noteq> []"
  let ?st0 = "\<lparr>out_dir = output_dir_name radar year month day,
                tracker = AsyncDownloadProgress_init (int (length links)),
                sem = nat max_concurrent, tasks = [], outside = w\<lparr>dirs := ds\<rparr>\<rparr>"
  have p: "prepare env links radar year month day max_concurrent w = Inr ?st0"
    using mk cap by (simp add: prepare_ok)
  have "ready (launch links ?st0) = []"
    using cap by (simp add: ready_no_units)
  note stuck = run_stuck [OF this, of env sched]
  have ns: "\<not> all_settled (launch links ?st0)"
    using ne by (cases links) (auto simp: all_settled_def launch_def)
  have "gather env sched (launch links ?st0) = None"
    using stuck ns by (simp add: gather_def Let_def)
  then show "download_files env sched links radar year month day max_concurrent w = None"
    by (simp add: download_files_def p)
  have "\<forall>s \<in> set (run env sched (launch links ?st0)).
            tasks s = map (\<lambda>link. (link, Waiting)) links"
    using stuck by (simp add: launch_def)
  then show "\<exists>st0. prepare env links radar year month day max_concurrent w = Inr st0 \<and>
         (\<forall>s \<in> set (run env sched (launch links st0)).
            tasks s = map (\<lambda>link. (link, Waiting)) links)"
    using p by blast
qed

theorem preparation_failures_witness:
  "os_makedirs demo_env_nodir (output_dir_name ''KHTX'' ''2025'' ''03'' ''15'') (dirs demo_world) =
     Inl (OSError ''Permission denied'') \<and>
   download_files demo_env_nodir [] demo_links ''KHTX'' ''2025'' ''03'' ''15'' 20 demo_world =
     Some (Raised (OSError ''Permission denied'') demo_world) \<and>
   os_makedirs demo_env (output_dir_name ''KHTX'' ''2025'' ''03'' ''15'') (dirs demo_world) =
     Inr {''KHTX_2025_03_15''} \<and>
   (- 1 :: int) < 0 \<and>
   download_files demo_env [] demo_links ''KHTX'' ''2025'' ''03'' ''15'' (- 1) demo_world =
     Some (Raised (ValueError ''Semaphore initial value must be >= 0'')
             (demo_world\<lparr>dirs := {''KHTX_2025_03_15''}\<rparr>)) \<and>
   demo_links \<noteq> [] \<and>
   download_files demo_env [0, 0, 0, 0, 0, 0] demo_links ''KHTX'' ''2025'' ''03'' ''15'' 0 demo_world =
     None \<and>
   launch demo_links demo_prepared0 \<in> set (run demo_env [0, 0, 0, 0, 0, 0] (launch demo_links demo_prepared0)) \<and>
   tasks (launch demo_links demo_prepared0) = map (\<lambda>link. (link, Waiting)) demo_links"
proof -
  have mk1: "os_makedirs demo_env_nodir (output_dir_name ''KHTX'' ''2025'' ''03'' ''15'') (dirs demo_world) =
     Inl (OSError ''Permission denied'')"
    by (simp add: demo_env_nodir_def)
  have mk2: "os_makedirs demo_env (output_dir_name ''KHTX'' ''2025'' ''03'' ''15'') (dirs demo_world) =
     Inr {''KHTX_2025_03_15''}"
    by (simp add: demo_evals)
  have neg: "(- 1 :: int) < 0" by simp
  have ne: "demo_links \<noteq> []" by (simp add: demo_links_def)
  have a: "download_files demo_env_nodir [] demo_links ''KHTX'' ''2025'' ''03'' ''15'' 20 demo_world =
     Some (Raised (OSError ''Permission denied'') demo_world)"
    using preparation_failures [of demo_env_nodir "''KHTX''" "''2025''" "''03''" "''15''" demo_world
        "[]" demo_links 20] mk1 by blast
  have b: "download_files demo_env [] demo_links ''KHTX'' ''2025'' ''03'' ''15'' (- 1) demo_world =
     Some (Raised (ValueError ''Semaphore initial value must be >= 0'')
             (demo_world\<lparr>dirs := {''KHTX_2025_03_15''}\<rparr>))"
    using preparation_failures [of demo_env "''KHTX''" "''2025''" "''03''" "''15''" demo_world
        "[]" demo_links "- 1"] mk2 neg by blast
  have c: "download_files demo_env [0, 0, 0, 0, 0, 0] demo_links ''KHTX'' ''2025'' ''03'' ''15'' 0 demo_world =
     None"
    using preparation_failures [of demo_env "''KHTX''" "''2025''" "''03''" "''15''" demo_world
        "[0, 0, 0, 0, 0, 0]" demo_links 0] mk2 ne by blast
  have d: "launch demo_links demo_prepared0 \<in> set (run demo_env [0, 0, 0, 0, 0, 0] (launch demo_links demo_prepared0))"
    by (simp add: launch_def all_settled_def demo_links_def)
  have e: "tasks (launch demo_links demo_prepared0) = map (\<lambda>link. (link, Waiting)) demo_links"
    by (simp add: launch_def)
  show ?thesis using mk1 mk2 neg ne a b c d e by blast
qed

text \<open>
  The claim as the specification states it fails for the cap 0, which is less than 1:
  the preparation succeeds, three tasks are handed to \<^verbatim>\<open>gather\<close>, and the call has
  not raised anything (nor returned) after six turns.
\<close>

theorem zero_cap_is_not_rejected:
  "(0::int) < 1 \<and>
   prepare demo_env demo_links ''KHTX'' ''2025'' ''03'' ''15'' 0 demo_world = Inr demo_prepared0 \<and>
   length (tasks (launch demo_links demo_prepared0)) = 3 \<and>
   download_files demo_env [0, 0, 0, 0, 0, 0] demo_links ''KHTX'' ''2025'' ''03'' ''15'' 0 demo_world
     = None"
  by (simp add: download_files_def prepare_def output_dir_name_def Semaphore_def launch_def
        gather_def turn_def ready_def can_move_def all_settled_def
        demo_env_def demo_world_def demo_links_def demo_prepared0_def Let_def upt_rec)

section \<open>The empty link list\<close>

text \<open>
  Claim C6. For the empty link list, when the output directory can be made and the
  cap is not negative, \<^verbatim>\<open>download_files\<close> returns the empty list under every
  schedule, the empty one included (no turn of the event loop is needed). The tracker
  it closes has total 0, the length of the list, and completed count 0. Files and
  standard output are as before; the directories are what \<^verbatim>\<open>os.makedirs\<close> left.
\<close>

theorem download_files_no_links:
  assumes "os_makedirs env (output_dir_name radar year month day) (dirs w) = Inr ds"
    and "0 \<le> max_concurrent"
  shows "download_files env sched [] radar year month day max_concurrent w =
           Some (Returned []
             \<lparr>out_dir = output_dir_name radar year month day,
              tracker =
                \<lparr>progress_bar =
                   \<lparr>bar_total = 0, bar_desc = ''Downloading Files'', bar_unit = ''file'',
                    bar_n = 0, bar_postfix = None, bar_closed = True\<rparr>,
                 completed = 0, lock = False\<rparr>,
              sem = nat max_concurrent, tasks = [],
              outside = w\<lparr>dirs := ds\<rparr>\<rparr>)"
proof -
  let ?st0 = "\<lparr>out_dir = output_dir_name radar year month day,
                tracker = AsyncDownloadProgress_init 0,
                sem = nat max_concurrent, tasks = [], outside = w\<lparr>dirs := ds\<rparr>\<rparr>"
  have p: "prepare env [] radar year month day max_concurrent w = Inr ?st0"
    using prepare_ok [OF assms, of "[]"] by simp
  have fin: "all_settled (launch [] ?st0)"
    by (simp add: all_settled_def launch_def)
  have "run env sched (launch [] ?st0) = [launch [] ?st0]"
    using fin by (cases sched) auto
  then have g: "gather env sched (launch [] ?st0) = Some (launch [] ?st0)"
    using fin by (simp add: gather_def)
  have "download_files env sched [] radar year month day max_concurrent w =
          Some (Returned (map the (filter (\<lambda>r. r \<noteq> None) (results (launch [] ?st0))))
                  ((launch [] ?st0)\<lparr>tracker := close (tracker (launch [] ?st0))\<rparr>))"
    by (simp add: download_files_def p g del: not_None_eq)
  then show ?thesis
    by (simp add: results_def launch_def close_def tqdm_close_def
          AsyncDownloadProgress_init_def tqdm_init_def)
qed

theorem download_files_no_links_witness:
  "os_makedirs demo_env (output_dir_name ''KHTX'' ''2025'' ''03'' ''15'') (dirs demo_world) =
     Inr {''KHTX_2025_03_15''} \<and>
   (0::int) \<le> 20 \<and>
   download_files demo_env [] [] ''KHTX'' ''2025'' ''03'' ''15'' 20 demo_world =
     Some (Returned []
       \<lparr>out_dir = ''KHTX_2025_03_15'',
        tracker =
          \<lparr>progress_bar =
             \<lparr>bar_total = 0, bar_desc = ''Downloading Files'', bar_unit = ''file'',
              bar_n = 0, bar_postfix = None, bar_closed = True\<rparr>,
           completed = 0, lock = False\<rparr>,
        sem = 20, tasks = [],
        outside = \<lparr>files = Map.empty, dirs = {''KHTX_2025_03_15''}, stdout = []\<rparr>\<rparr>)"
proof -
  have mk: "os_makedirs demo_env (output_dir_name ''KHTX'' ''2025'' ''03'' ''15'') (dirs demo_world) =
     Inr {''KHTX_2025_03_15''}"
    by (simp add: demo_evals)
  have cap: "(0::int) \<le> 20" by simp
  show ?thesis
    using download_files_no_links [OF mk cap, of "[]"] mk
    by (simp add: demo_evals demo_world_def)
qed

section \<open>The completed count\<close>

lemma completed_calls:
  "completed (foldl call t cs) = completed t + int (length (filter is_update cs))"
proof (induction cs arbitrary: t)
  case Nil
  show ?case by simp
next
  case (Cons c cs)
  show ?case by (cases c) (simp_all add: Cons completed_update tracker_close)
qed

lemma bar_n_updates:
  "\<not> bar_closed (progress_bar t) \<Longrightarrow>
     bar_n (progress_bar (foldl call t (replicate k (Update filename)))) =
       bar_n (progress_bar t) + int k \<and>
     bar_total (progress_bar (foldl call t (replicate k (Update filename)))) =
       bar_total (progress_bar t)"
proof (induction k arbitrary: t)
  case 0
  show ?case by simp
next
  case (Suc k)
  have "\<not> bar_closed (progress_bar (update filename t))"
    using Suc.prems by (simp add: bar_update)
  from Suc.IH [OF this] show ?case
    using Suc.prems by (simp add: bar_update)
qed

text \<open>
  Claim C8. \<^verbatim>\<open>update\<close> adds exactly one to the completed count and leaves the lock
  free; \<^verbatim>\<open>close\<close> does not change the count. So after any sequence of calls the count
  is the count before plus the number of updates in the sequence: it never goes down.
  No call has a failing branch: \<open>k\<close> updates on a fresh tracker of any total give the
  count \<open>k\<close>, also for \<open>k\<close> beyond the total, where the counter of the bar passes its
  total as well.
\<close>

theorem completed_only_grows:
  "completed (update filename t) = completed t + 1 \<and>
   lock (update filename t) = False \<and>
   completed (close t) = completed t \<and>
   completed (foldl call t cs) = completed t + int (length (filter is_update cs)) \<and>
   completed t \<le> completed (foldl call t cs) \<and>
   completed (foldl call (AsyncDownloadProgress_init total_files) (replicate k (Update filename))) = int k \<and>
   bar_n (progress_bar
      (foldl call (AsyncDownloadProgress_init total_files) (replicate k (Update filename)))) = int k \<and>
   bar_total (progress_bar
      (foldl call (AsyncDownloadProgress_init total_files) (replicate k (Update filename)))) = total_files"
proof -
  have fresh: "\<not> bar_closed (progress_bar (AsyncDownloadProgress_init total_files))"
    "bar_n (progress_bar (AsyncDownloadProgress_init total_files)) = 0"
    "bar_total (progress_bar (AsyncDownloadProgress_init total_files)) = total_files"
    "completed (AsyncDownloadProgress_init total_files) = 0"
    by (simp_all add: AsyncDownloadProgress_init_def tqdm_init_def)
  have "length (filter is_update (replicate k (Update filename))) = k"
    by (induction k) auto
  then have "completed (foldl call (AsyncDownloadProgress_init total_files) (replicate k (Update filename))) = int k"
    by (simp add: completed_calls fresh)
  then show ?thesis
    using bar_n_updates [OF fresh(1), of k filename] fresh
    by (simp add: completed_update lock_update tracker_close completed_calls)
qed

section \<open>Link extraction\<close>

lemma extract_links_eq:
  "extract_links join url ds =
     (if Some None \<in> set (map anchor_href ds) then Inl (KeyError ''href'')
      else Inr (map (join url) (concat (map (\<lambda>d. href_list (anchor_href d)) ds))))"
proof (induction ds)
  case Nil
  show ?case by simp
next
  case (Cons d ds)
  show ?case
  proof (cases "find_tag ''a'' d")
    case None
    then show ?thesis using Cons by (simp add: anchor_href_def)
  next
    case (Some a)
    then show ?thesis
      using Cons by (cases "attrs a ''href''") (simp_all add: anchor_href_def)
  qed
qed

text \<open>
  Claim C9, as the code has it. A link container without any anchor is left out,
  and a page without link containers gives the empty list. A container whose first
  anchor has no \<^verbatim>\<open>href\<close> is not left out: \<^verbatim>\<open>link.find('a')['href']\<close> raises
  \<^verbatim>\<open>KeyError\<close>, and the whole extraction fails with it, wherever in the page that
  container is. When the page is fetched with a status below 400 and its text is
  read, the function returns what the comprehension gives on the containers found.
\<close>

theorem extract_links_skips_only_anchorless:
  "extract_links join url ds =
     (if Some None \<in> set (map anchor_href ds) then Inl (KeyError ''href'')
      else Inr (map (join url) (concat (map (\<lambda>d. href_list (anchor_href d)) ds)))) \<and>
   extract_links join url [] = Inr [] \<and>
   (\<forall>resp html. page_get web url = Inr resp \<longrightarrow> status resp < 400 \<longrightarrow>
      body_text resp = Inr html \<longrightarrow>
      fetch_download_links web url =
        extract_links (urljoin web) url (find_all ''div'' ''bdpLink'' (html_parser web html)))"
proof (intro conjI allI impI)
  show "extract_links join url ds =
     (if Some None \<in> set (map anchor_href ds) then Inl (KeyError ''href'')
      else Inr (map (join url) (concat (map (\<lambda>d. href_list (anchor_href d)) ds))))"
    by (rule extract_links_eq)
  show "extract_links join url [] = Inr []" by simp
next
  fix resp html
  assume "page_get web url = Inr resp" and "status resp < 400" and "body_text resp = Inr html"
  then show "fetch_download_links web url =
        extract_links (urljoin web) url (find_all ''div'' ''bdpLink'' (html_parser web html))"
    by (simp add: fetch_download_links_def raise_for_status_def Let_def)
qed

theorem extract_links_skips_only_anchorless_witness:
  "page_get (demo_web demo_page) ''http://h/p'' =
     Inr \<lparr>status = 200, error_str = [], body = Inr [], body_text = Inr ''<html>''\<rparr> \<and>
   (200::int) < 400 \<and>
   Some None \<notin> set (map anchor_href (find_all ''div'' ''bdpLink'' demo_page)) \<and>
   fetch_download_links (demo_web demo_page) ''http://h/p'' = Inr [''http://h/f/A'']"
proof -
  let ?resp = "\<lparr>status = 200, error_str = [], body = Inr [], body_text = Inr ''<html>''\<rparr>"
  have g: "page_get (demo_web demo_page) ''http://h/p'' = Inr ?resp"
    by (simp add: demo_web_def)
  have s: "status ?resp < 400" and t: "body_text ?resp = Inr ''<html>''"
    by simp_all
  have f: "find_all ''div'' ''bdpLink'' demo_page =
      [Tag ''div'' [''bdpLink''] Map.empty [Tag ''a'' [] [''href'' \<mapsto> ''/f/A''] []],
       Tag ''div'' [''bdpLink''] Map.empty []]"
    by (simp add: find_all_def demo_page_def)
  have a: "map anchor_href (find_all ''div'' ''bdpLink'' demo_page) = [Some (Some ''/f/A''), None]"
    by (simp add: f anchor_href_def find_tag_def)
  note inst = extract_links_skips_only_anchorless
    [of "urljoin (demo_web demo_page)" "''http://h/p''" "find_all ''div'' ''bdpLink'' demo_page"
        "demo_web demo_page"]
  have c: "concat (map (\<lambda>d. href_list (anchor_href d)) (find_all ''div'' ''bdpLink'' demo_page)) =
      [''/f/A'']"
    by (simp add: f anchor_href_def find_tag_def)
  have e: "extract_links (urljoin (demo_web demo_page)) ''http://h/p''
             (find_all ''div'' ''bdpLink'' demo_page) = Inr [''http://h/f/A'']"
    using inst by (simp add: a c demo_web_def)
  have "fetch_download_links (demo_web demo_page) ''http://h/p'' =
      extract_links (urljoin (demo_web demo_page)) ''http://h/p''
        (find_all ''div'' ''bdpLink'' (html_parser (demo_web demo_page) ''<html>''))"
    using inst g s t by blast
  then have "fetch_download_links (demo_web demo_page) ''http://h/p'' = Inr [''http://h/f/A'']"
    using e by (simp add: demo_web_def)
  then show ?thesis using g a by simp
qed

text \<open>
  The claim as the specification states it fails on a page with a container whose
  anchor has no \<^verbatim>\<open>href\<close>: the extraction raises \<^verbatim>\<open>KeyError\<close> and returns no list,
  although the page also has a well-formed link.
\<close>

theorem anchor_without_href_raises:
  "fetch_download_links (demo_web demo_page_no_href) ''http://h/p'' = Inl (KeyError ''href'')"
  by (simp add: fetch_download_links_def raise_for_status_def demo_web_def demo_page_no_href_def
        find_all_def find_tag_def Let_def)

section \<open>The file written by a successful download\<close>











section \<open>The order of the list returned\<close>

lemma filter_keeps_order:
  assumes "i < j" and "j < length xs" and "P (xs ! i)" and "P (xs ! j)"
  shows "\<exists>p q. p < q \<and> q < length (filter P xs) \<and>
           filter P xs ! p = xs ! i \<and> filter P xs ! q = xs ! j"
proof -
  have xs: "xs = take j xs @ xs ! j # drop (Suc j) xs"
    using assms(2) by (rule id_take_nth_drop)
  have i: "i < length (take j xs)" using assms(1,2) by simp
  have tk: "take j xs = take i (take j xs) @ take j xs ! i # drop (Suc i) (take j xs)"
    using i by (rule id_take_nth_drop)
  have ti: "take j xs ! i = xs ! i" using assms(1) by simp
  let ?as = "filter P (take i (take j xs))"
  let ?bs = "filter P (drop (Suc i) (take j xs))"
  let ?cs = "filter P (drop (Suc j) xs)"
  have "filter P xs = filter P (take j xs) @ filter P (xs ! j # drop (Suc j) xs)"
    by (subst xs) (simp only: filter_append)
  also have "filter P (take j xs) = ?as @ xs ! i # ?bs"
    by (subst tk) (simp add: ti assms(3))
  finally have f: "filter P xs = ?as @ xs ! i # ?bs @ xs ! j # ?cs"
    using assms(4) by simp
  let ?p = "length ?as" and ?q = "length ?as + Suc (length ?bs)"
  have "?p < ?q" by simp
  moreover have "?q < length (filter P xs)" by (subst f) simp
  moreover have "filter P xs ! ?p = xs ! i" by (subst f) simp
  moreover have "filter P xs ! ?q = xs ! j"
    by (subst f) (simp add: nth_append)
  ultimately show ?thesis by blast
qed

text \<open>
  Claim C10. The list \<^verbatim>\<open>download_files\<close> returns is the list of the filenames of the
  links whose download succeeded, in the order of the link list, whatever the order
  in which the tasks ran. So for two links at positions \<open>i < j\<close> that both succeed, the
  filename of the first stands at an earlier position of the list than the filename
  of the second.
\<close>

theorem download_files_keeps_link_order:
  assumes r: "download_files env sched links radar year month day max_concurrent w =
                Some (Returned fs st)"
    and ij: "i < j" and j: "j < length links"
    and oki: "\<not> download_fails (task_io env i) (links ! i) (output_dir_name radar year month day)"
    and okj: "\<not> download_fails (task_io env j) (links ! j) (output_dir_name radar year month day)"
  shows "fs = map (\<lambda>(k, url). last (split CHR ''/'' url))
                (filter (\<lambda>(k, url). \<not> download_fails (task_io env k) url
                                         (output_dir_name radar year month day))
                   (enumerate 0 links)) \<and>
         (\<exists>p q. p < q \<and> q < length fs \<and>
            fs ! p = last (split CHR ''/'' (links ! i)) \<and>
            fs ! q = last (split CHR ''/'' (links ! j)))"
proof -
  let ?P = "\<lambda>(k, url). \<not> download_fails (task_io env k) url (output_dir_name radar year month day)"
  let ?f = "\<lambda>(k, url). last (split CHR ''/'' url)"
  let ?xs = "enumerate 0 links"
  from download_files_Returned [OF r] obtain st' where
    coh: "coherent env links (output_dir_name radar year month day) (nat max_concurrent) st'"
    and fin: "all_settled st'"
    and fs: "fs = map the (filter (\<lambda>r. r \<noteq> None) (results st'))"
    by blast
  have eq: "fs = map ?f (filter ?P ?xs)"
    unfolding fs by (rule returned_list [OF coh fin])
  have xi: "?xs ! i = (i, links ! i)" and xj: "?xs ! j = (j, links ! j)"
    using ij j by (simp_all add: nth_enumerate_eq)
  have len: "j < length ?xs" using j by simp
  have Pi: "?P (?xs ! i)" unfolding xi using oki by simp
  have Pj: "?P (?xs ! j)" unfolding xj using okj by simp
  have "\<exists>p q. p < q \<and> q < length (filter ?P ?xs) \<and>
           filter ?P ?xs ! p = ?xs ! i \<and> filter ?P ?xs ! q = ?xs ! j"
    using ij len Pi Pj by (rule filter_keeps_order)
  then obtain p q where pq: "p < q" and q: "q < length (filter ?P ?xs)"
    and fp: "filter ?P ?xs ! p = (i, links ! i)" and fq: "filter ?P ?xs ! q = (j, links ! j)"
    unfolding xi xj by (elim exE conjE)
  have p: "p < length (filter ?P ?xs)" using pq q by simp
  have "map ?f (filter ?P ?xs) ! p = ?f (filter ?P ?xs ! p)"
    using p by (rule nth_map)
  then have 1: "fs ! p = last (split CHR ''/'' (links ! i))"
    unfolding eq fp by simp
  have "map ?f (filter ?P ?xs) ! q = ?f (filter ?P ?xs ! q)"
    using q by (rule nth_map)
  then have 2: "fs ! q = last (split CHR ''/'' (links ! j))"
    unfolding eq fq by simp
  have 3: "q < length fs" unfolding eq using q by simp
  have "\<exists>p q. p < q \<and> q < length fs \<and>
            fs ! p = last (split CHR ''/'' (links ! i)) \<and>
            fs ! q = last (split CHR ''/'' (links ! j))"
    using pq 1 2 3 by (intro exI [of _ p] exI [of _ q] conjI)
  with eq show ?thesis by (rule conjI)
qed

lemma demo_returns_reordered:
  "download_files demo_env [2, 2, 0, 0, 0, 0] demo_links ''KHTX'' ''2025'' ''03'' ''15'' 20 demo_world =
     Some (Returned [''A'', ''C''] demo_final_reordered)"
  by (simp add: download_files_def prepare_def output_dir_name_def Semaphore_def launch_def
        gather_def turn_def ready_def can_move_def step_def all_settled_def results_def
        download_file_def download_attempt_def raise_for_status_def os_path_join_def
        update_def close_def tqdm_update_def tqdm_close_def set_postfix_str_def
        AsyncDownloadProgress_init_def tqdm_init_def
        demo_env_def demo_world_def demo_links_def good_io_def bad_io_def ok_response_def
        demo_final_reordered_def Let_def upt_rec)

theorem download_files_keeps_link_order_witness:
  "download_files demo_env [2, 2, 0, 0, 0, 0] demo_links ''KHTX'' ''2025'' ''03'' ''15'' 20 demo_world =
     Some (Returned [''A'', ''C''] demo_final_reordered) \<and>
   (0::nat) < 2 \<and> 2 < length demo_links \<and>
   \<not> download_fails (task_io demo_env 0) (demo_links ! 0) (output_dir_name ''KHTX'' ''2025'' ''03'' ''15'') \<and>
   \<not> download_fails (task_io demo_env 2) (demo_links ! 2) (output_dir_name ''KHTX'' ''2025'' ''03'' ''15'') \<and>
   (\<exists>p q. p < q \<and> q < length [''A'', ''C''] \<and> [''A'', ''C''] ! p = ''A'' \<and> [''A'', ''C''] ! q = ''C'')"
proof -
  have ij: "(0::nat) < 2" by simp
  have j: "2 < length demo_links" by (simp add: demo_evals)
  have ok0: "\<not> download_fails (task_io demo_env 0) (demo_links ! 0) (output_dir_name ''KHTX'' ''2025'' ''03'' ''15'')"
    by (simp add: demo_evals)
  have ok2: "\<not> download_fails (task_io demo_env 2) (demo_links ! 2) (output_dir_name ''KHTX'' ''2025'' ''03'' ''15'')"
    by (simp add: demo_evals)
  note inst = download_files_keeps_link_order [OF demo_returns_reordered ij j ok0 ok2, THEN conjunct2]
  have "\<exists>p q. p < q \<and> q < length [''A'', ''C''] \<and> [''A'', ''C''] ! p = ''A'' \<and> [''A'', ''C''] ! q = ''C''"
    using inst by (simp only: demo_evals)
  then show ?thesis
    using demo_returns_reordered ij j ok0 ok2 by (intro conjI)
qed

end
